theory Spec2Isabelle
  imports Main
begin

section \<open>Python values\<close>

text \<open>
  The card, the global defaults and the enforced-requirements document are parsed JSON.
  A JSON object is a Python dict with string keys: it is modelled by the list of its
  items, in insertion order; the keys of a dict are distinct. A float is carried as the
  text Python's \<open>str\<close> gives for it, the only thing the code ever does with a float
  besides testing its truth value. Strings are lists of \<open>char\<close>, one per code point,
  so the model covers the code points below 256; \<open>length\<close> is Python's \<open>len\<close>.
  Integers are unbounded, as in Python. The interpreter converts at most 4300 decimal
  digits between a string and an integer: \<open>int\<close> of a longer digit run raises a
  ValueError, which \<open>py_int\<close> below models. The JSON parser is under the same limit, so
  no integer of a parsed card or configuration is longer, and \<open>str\<close> of one never raises.
\<close>

datatype json =
    JNull
  | JBool bool
  | JInt int
  | JFloat string
  | JStr string
  | JList "json list"
  | JDict "(string \<times> json) list"

type_synonym dict = "(string \<times> json) list"

datatype py_error = AttributeError | TypeError | ValueError string

text \<open>
  A computation that can raise returns a sum; \<open>and_then\<close> passes its value on and lets
  the exception through.
\<close>

definition and_then :: "py_error + 'a \<Rightarrow> ('a \<Rightarrow> py_error + 'b) \<Rightarrow> py_error + 'b" where
  "and_then m f = (case m of Inl e \<Rightarrow> Inl e | Inr x \<Rightarrow> f x)"

text \<open>Truth value testing, as \<open>or\<close>, \<open>and\<close>, \<open>not\<close> and \<open>if\<close> apply it.\<close>

fun truthy :: "json \<Rightarrow> bool" where
  "truthy JNull = False"
| "truthy (JBool b) = b"
| "truthy (JInt i) = (i \<noteq> 0)"
| "truthy (JFloat r) = (r \<noteq> ''0.0'' \<and> r \<noteq> ''-0.0'')"
| "truthy (JStr s) = (s \<noteq> [])"
| "truthy (JList xs) = (xs \<noteq> [])"
| "truthy (JDict kvs) = (kvs \<noteq> [])"

definition py_or :: "json \<Rightarrow> json \<Rightarrow> json" where
  "py_or a b = (if truthy a then a else b)"

text \<open>\<open>d.get(k)\<close> and \<open>d.get(k, default)\<close>.\<close>

definition dget :: "dict \<Rightarrow> string \<Rightarrow> json" where
  "dget d k = (case map_of d k of None \<Rightarrow> JNull | Some v \<Rightarrow> v)"

definition dget_default :: "dict \<Rightarrow> string \<Rightarrow> json \<Rightarrow> json" where
  "dget_default d k dflt = (case map_of d k of None \<Rightarrow> dflt | Some v \<Rightarrow> v)"

section \<open>Python strings\<close>

text \<open>
  \<open>str.strip\<close>, \<open>str.isspace\<close> and the \<open>\s\<close> of \<open>re\<close> share one notion of
  whitespace; below 256 it is the code points 9 to 13, 28 to 32, 133 and 160.
\<close>

definition is_space :: "char \<Rightarrow> bool" where
  "is_space c = (let n = (of_char c :: nat) in
     (9 \<le> n \<and> n \<le> 13) \<or> (28 \<le> n \<and> n \<le> 32) \<or> n = 133 \<or> n = 160)"

text \<open>The \<open>\d\<close> of \<open>re\<close> and the digits \<open>int\<close> accepts: decimal digits.\<close>

definition is_decimal :: "char \<Rightarrow> bool" where
  "is_decimal c = (let n = (of_char c :: nat) in 48 \<le> n \<and> n \<le> 57)"

text \<open>\<open>str.isdigit\<close> also holds of the superscript digits (178, 179, 185).\<close>

definition is_digit :: "char \<Rightarrow> bool" where
  "is_digit c = (let n = (of_char c :: nat) in
     (48 \<le> n \<and> n \<le> 57) \<or> n = 178 \<or> n = 179 \<or> n = 185)"

text \<open>The \<open>\w\<close> of \<open>re\<close>: alphanumeric (letters, digits, numeric characters) or underscore.\<close>

definition is_word_char :: "char \<Rightarrow> bool" where
  "is_word_char c = (let n = (of_char c :: nat) in
     (48 \<le> n \<and> n \<le> 57) \<or> (65 \<le> n \<and> n \<le> 90) \<or> n = 95 \<or> (97 \<le> n \<and> n \<le> 122)
     \<or> n = 170 \<or> n = 178 \<or> n = 179 \<or> n = 181 \<or> n = 185 \<or> n = 186
     \<or> (188 \<le> n \<and> n \<le> 190) \<or> (192 \<le> n \<and> n \<le> 214) \<or> (216 \<le> n \<and> n \<le> 246)
     \<or> 248 \<le> n)"

definition lower_char :: "char \<Rightarrow> char" where
  "lower_char c = (let n = (of_char c :: nat) in
     if (65 \<le> n \<and> n \<le> 90) \<or> (192 \<le> n \<and> n \<le> 222 \<and> n \<noteq> 215)
     then char_of (n + 32) else c)"

definition lower :: "string \<Rightarrow> string" where
  "lower s = map lower_char s"

definition lstrip :: "string \<Rightarrow> string" where
  "lstrip s = dropWhile is_space s"

definition rstrip :: "string \<Rightarrow> string" where
  "rstrip s = rev (dropWhile is_space (rev s))"

definition strip :: "string \<Rightarrow> string" where
  "strip s = rstrip (lstrip s)"

text \<open>\<open>sep.join(xs)\<close>.\<close>

fun intercalate :: "string \<Rightarrow> string list \<Rightarrow> string" where
  "intercalate sep [] = []"
| "intercalate sep [x] = x"
| "intercalate sep (x # y # ys) = x @ sep @ intercalate sep (y # ys)"

text \<open>\<open>sub in s\<close> on strings.\<close>

fun starts_with :: "string \<Rightarrow> string \<Rightarrow> bool" where
  "starts_with [] s = True"
| "starts_with (p # ps) [] = False"
| "starts_with (p # ps) (c # cs) = (p = c \<and> starts_with ps cs)"

fun contains :: "string \<Rightarrow> string \<Rightarrow> bool" where
  "contains sub [] = (sub = [])"
| "contains sub (c # cs) = (starts_with sub (c # cs) \<or> contains sub cs)"

text \<open>\<open>str(n)\<close>, and the value of a string of decimal digits.\<close>

fun str_nat :: "nat \<Rightarrow> string" where
  "str_nat n =
     (if n < 10 then [char_of (48 + n)]
      else str_nat (n div 10) @ [char_of (48 + n mod 10)])"

declare str_nat.simps [simp del]

definition str_int :: "int \<Rightarrow> string" where
  "str_int i = (if i < 0 then CHR ''-'' # str_nat (nat (- i)) else str_nat (nat i))"

definition int_of_digits :: "string \<Rightarrow> int" where
  "int_of_digits ds = foldl (\<lambda>a c. 10 * a + (int (of_char c) - 48)) 0 ds"

text \<open>
  \<open>repr\<close> of a string: single quotes unless the string has a single quote and no double
  quote; the quote and the backslash escaped, tab, newline and return by letter, every
  other non-printable character as \<open>\xhh\<close>.
\<close>

definition is_printable :: "char \<Rightarrow> bool" where
  "is_printable c = (let n = (of_char c :: nat) in
     (32 \<le> n \<and> n < 127) \<or> (161 \<le> n \<and> n \<noteq> 173))"

definition hex_digit :: "nat \<Rightarrow> char" where
  "hex_digit n = ''0123456789abcdef'' ! n"

definition repr_char :: "char \<Rightarrow> char \<Rightarrow> string" where
  "repr_char q c =
     (if c = q \<or> c = CHR 0x5C then [CHR 0x5C, c]
      else if c = CHR 0x09 then [CHR 0x5C, CHR ''t'']
      else if c = CHR 0x0A then [CHR 0x5C, CHR ''n'']
      else if c = CHR 0x0D then [CHR 0x5C, CHR ''r'']
      else if is_printable c then [c]
      else [CHR 0x5C, CHR ''x'', hex_digit (of_char c div 16), hex_digit (of_char c mod 16)])"

definition repr_str :: "string \<Rightarrow> string" where
  "repr_str s =
     (let q = (if CHR 0x27 \<in> set s \<and> CHR 0x22 \<notin> set s then CHR 0x22 else CHR 0x27)
      in q # concat (map (repr_char q) s) @ [q])"

text \<open>
  \<open>int(s)\<close> for a string of characters that \<open>isdigit\<close> accepts (a run matched by
  \<open>\d+\<close> is one). The conversion scans the leading run of decimal digits; a run of
  more than 4300 digits raises the ValueError of the digit limit; a string that is not
  wholly such a run (a superscript digit is among its characters, or it is empty) raises
  the ValueError of an invalid literal, which shows at most 200 characters of its repr.
\<close>

definition INT_MAX_STR_DIGITS :: nat where
  "INT_MAX_STR_DIGITS = 4300"

definition py_int :: "string \<Rightarrow> py_error + int" where
  "py_int s =
     (let run = takeWhile is_decimal s in
      if INT_MAX_STR_DIGITS < length run then
        Inl (ValueError
          (''Exceeds the limit (4300 digits) for integer string conversion: value has ''
            @ str_nat (length run)
            @ '' digits; use sys.set_int_max_str_digits() to increase the limit''))
      else if s \<noteq> [] \<and> run = s then Inr (int_of_digits s)
      else Inl (ValueError
        (''invalid literal for int() with base 10: '' @ take 200 (repr_str s))))"

fun py_repr :: "json \<Rightarrow> string" where
  "py_repr JNull = ''None''"
| "py_repr (JBool b) = (if b then ''True'' else ''False'')"
| "py_repr (JInt i) = str_int i"
| "py_repr (JFloat r) = r"
| "py_repr (JStr s) = repr_str s"
| "py_repr (JList xs) = ''['' @ intercalate '', '' (map py_repr xs) @ '']''"
| "py_repr (JDict kvs) =
     ''{'' @ intercalate '', '' (map (\<lambda>(k, v). repr_str k @ '': '' @ py_repr v) kvs) @ ''}''"

text \<open>\<open>str(v)\<close>: a string is itself, everything else is printed as \<open>repr\<close> prints it.\<close>

definition py_str :: "json \<Rightarrow> string" where
  "py_str v = (case v of JStr s \<Rightarrow> s | _ \<Rightarrow> py_repr v)"

text \<open>\<open>v.strip()\<close> on a value that need not be a string: anything else has no such method.\<close>

definition strip_method :: "json \<Rightarrow> py_error + string" where
  "strip_method v = (case v of JStr s \<Rightarrow> Inr (strip s) | _ \<Rightarrow> Inl AttributeError)"

section \<open>The field normalizer\<close>

text \<open>
  \<open>norm_optional\<close> of \<open>pipeline.py\<close> and \<open>_norm_optional\<close> of \<open>title_builder.py\<close>
  are the same function, line for line.
\<close>

definition norm_optional :: "json \<Rightarrow> string" where
  "norm_optional val =
     (if val = JNull \<or> val = JBool False then []
      else case val of
        JStr raw \<Rightarrow>
          (let s = strip raw in
           if s = [] then []
           else if lower s \<in> set [''false'', ''no'', ''none'', ''n/a'', ''na''] then []
           else s)
      | _ \<Rightarrow> [])"

section \<open>The title builder\<close>

definition EBAY_TITLE_MAX :: nat where
  "EBAY_TITLE_MAX = 80"

text \<open>\<open>re.sub(r"\s+", " ", s)\<close>: every maximal run of whitespace becomes one space.\<close>

function collapse_ws :: "string \<Rightarrow> string" where
  "collapse_ws [] = []"
| "collapse_ws (c # cs) =
     (if is_space c then CHR '' '' # collapse_ws (dropWhile is_space cs)
      else c # collapse_ws cs)"
  by pat_completeness auto
termination
  by (relation "measure length") (auto simp: less_Suc_eq_le length_dropWhile_le)

definition clean :: "string \<Rightarrow> string" where
  "clean s = collapse_ws (strip s)"

definition join_tokens :: "string list \<Rightarrow> string" where
  "join_tokens tokens =
     clean (intercalate '' '' (map clean (filter (\<lambda>t. clean t \<noteq> []) tokens)))"

text \<open>
  \<open>re.sub(r"\bof\b", "/", s, flags=re.IGNORECASE)\<close>, scanning left to right with the
  character before the position at hand: a word boundary stands before the \<open>o\<close> when no
  word character precedes it, and after the \<open>f\<close> when none follows.
\<close>

definition word_before :: "char option \<Rightarrow> bool" where
  "word_before prev = (case prev of None \<Rightarrow> False | Some p \<Rightarrow> is_word_char p)"

definition word_after :: "string \<Rightarrow> bool" where
  "word_after cs = (case cs of [] \<Rightarrow> False | n # _ \<Rightarrow> is_word_char n)"

fun sub_of :: "char option \<Rightarrow> string \<Rightarrow> string" where
  "sub_of prev (c # d # cs) =
     (if (c = CHR ''o'' \<or> c = CHR ''O'') \<and> (d = CHR ''f'' \<or> d = CHR ''F'')
         \<and> \<not> word_before prev \<and> \<not> word_after cs
      then CHR ''/'' # sub_of (Some d) cs
      else c # sub_of (Some c) (d # cs))"
| "sub_of prev cs = cs"

text \<open>
  \<open>re.search(r"(\d+)\s*/\s*(\d+)", s)\<close>: the match at a given position takes the whole
  run of digits, the whitespace, the slash, the whitespace and the whole second run (a
  shorter first run or less whitespace is followed by a digit or a space, never by what the
  pattern wants next); the search takes the leftmost position that matches.
\<close>

definition match_fraction_at :: "string \<Rightarrow> (string \<times> string) option" where
  "match_fraction_at s =
     (let g1 = takeWhile is_decimal s;
          r1 = dropWhile is_space (dropWhile is_decimal s)
      in if g1 = [] then None
         else case r1 of
           [] \<Rightarrow> None
         | c # r2 \<Rightarrow>
             if c \<noteq> CHR ''/'' then None
             else let g2 = takeWhile is_decimal (dropWhile is_space r2)
                  in if g2 = [] then None else Some (g1, g2))"

fun search_fraction :: "string \<Rightarrow> (string \<times> string) option" where
  "search_fraction [] = None"
| "search_fraction (c # cs) =
     (case match_fraction_at (c # cs) of
        Some m \<Rightarrow> Some m
      | None \<Rightarrow> search_fraction cs)"

text \<open>\<open>re.search(r"/\s*(\d+)", s)\<close>.\<close>

definition match_denominator_at :: "string \<Rightarrow> string option" where
  "match_denominator_at s =
     (case s of
        [] \<Rightarrow> None
      | c # r \<Rightarrow>
          if c \<noteq> CHR ''/'' then None
          else let g = takeWhile is_decimal (dropWhile is_space r)
               in if g = [] then None else Some g)"

fun search_denominator :: "string \<Rightarrow> string option" where
  "search_denominator [] = None"
| "search_denominator (c # cs) =
     (case match_denominator_at (c # cs) of
        Some g \<Rightarrow> Some g
      | None \<Rightarrow> search_denominator cs)"

definition parse_serial_for_ebay :: "json \<Rightarrow> py_error + string option" where
  "parse_serial_for_ebay serial_raw =
     (let s = norm_optional serial_raw in
      if s = [] then Inr None
      else
        let s = sub_of None s in
        case search_fraction s of
          Some (g1, g2) \<Rightarrow>
            and_then (py_int g1) (\<lambda>first.
            and_then (py_int g2) (\<lambda>denom.
              if denom \<le> 0 then Inr None
              else if first = 1 \<or> first = denom
                then Inr (Some (str_int first @ ''/'' @ str_int denom))
              else Inr (Some (''/'' @ str_int denom))))
        | None \<Rightarrow>
            (case search_denominator s of
               Some g \<Rightarrow>
                 and_then (py_int g) (\<lambda>denom.
                   if denom \<le> 0 then Inr None else Inr (Some (''/'' @ str_int denom)))
             | None \<Rightarrow> Inr None))"

record TitleInputs =
  year :: string
  brand :: string
  set_name :: string
  player_first :: string
  player_last :: string
  card_number :: string
  insert_name :: string
  parallel :: string
  auto_patch :: string
  serial_raw :: json
  grading_company :: string
  numerical_grade :: string
  team_city :: string
  team_name :: string
  rookie :: string

definition title_inputs :: "dict \<Rightarrow> TitleInputs" where
  "title_inputs crd = \<lparr>
     year = clean (py_str (dget_default crd ''year'' (JStr []))),
     brand = clean (py_str (dget_default crd ''brand'' (JStr []))),
     set_name = clean (py_str (dget_default crd ''set'' (dget_default crd ''set_name'' (JStr [])))),
     player_first = clean (py_str
       (dget_default crd ''player_first'' (dget_default crd ''player_first_name'' (JStr [])))),
     player_last = clean (py_str
       (dget_default crd ''player_last'' (dget_default crd ''player_last_name'' (JStr [])))),
     card_number = clean (py_str
       (dget_default crd ''card_number'' (dget_default crd ''card_no'' (JStr [])))),
     insert_name = norm_optional (dget_default crd ''insert'' (dget crd ''insert_set'')),
     parallel = norm_optional (dget_default crd ''parallel'' (dget crd ''variety'')),
     auto_patch = norm_optional (dget_default crd ''auto_patch'' (dget crd ''auto_patch_type'')),
     serial_raw = dget_default crd ''serial'' (dget crd ''serial_number''),
     grading_company = norm_optional (dget_default crd ''grading_company'' (dget crd ''grader'')),
     numerical_grade = norm_optional (dget_default crd ''numerical_grade'' (dget crd ''grade'')),
     team_city = norm_optional (dget crd ''team_city''),
     team_name = norm_optional (dget_default crd ''team_name'' (dget crd ''team'')),
     rookie = norm_optional (dget_default crd ''rookie'' (dget crd ''rc''))
   \<rparr>"

definition mandatory_tokens :: "TitleInputs \<Rightarrow> string list" where
  "mandatory_tokens inp =
     [year inp, brand inp, set_name inp, player_first inp, player_last inp, card_number inp]"

text \<open>The dict \<open>group_values\<close>, from the inputs and the local \<open>serial_fmt\<close>.\<close>

definition group_values :: "TitleInputs \<Rightarrow> string \<Rightarrow> (string \<times> string) list" where
  "group_values inp serial_fmt =
     [(''insert'', join_tokens [insert_name inp]),
      (''parallel'', join_tokens [parallel inp]),
      (''auto_patch'', join_tokens [auto_patch inp]),
      (''serial'', join_tokens [serial_fmt]),
      (''grading_company'', join_tokens [grading_company inp]),
      (''numerical_grade'', join_tokens [numerical_grade inp]),
      (''team_city'', join_tokens [team_city inp]),
      (''team_name'', join_tokens [team_name inp]),
      (''rookie'', join_tokens [rookie inp])]"

definition include_order :: "string list" where
  "include_order =
     [''insert'', ''parallel'', ''auto_patch'', ''serial'', ''grading_company'',
      ''numerical_grade'', ''team_city'', ''team_name'', ''rookie'']"

definition drop_priority :: "string list" where
  "drop_priority =
     [''team_city'', ''team_name'', ''numerical_grade'', ''grading_company'', ''parallel'',
      ''insert'', ''serial'', ''auto_patch'', ''rookie'']"

text \<open>
  The tokens of a title: the mandatory ones, then the value of every group of
  \<open>include_order\<close> that the dict at hand holds non-empty.
\<close>

definition group_token :: "(string \<rightharpoonup> string) \<Rightarrow> string \<Rightarrow> string list" where
  "group_token active k =
     (case active k of None \<Rightarrow> [] | Some v \<Rightarrow> if v = [] then [] else [v])"

definition title_tokens :: "string list \<Rightarrow> (string \<rightharpoonup> string) \<Rightarrow> string list" where
  "title_tokens mandatory active = mandatory @ concat (map (group_token active) include_order)"

text \<open>
  The loop over \<open>drop_priority\<close>, with the state it updates: the dict \<open>active\<close>, the
  title and the list \<open>dropped\<close>. It breaks as soon as the title fits.
\<close>

fun drop_loop ::
  "string list \<Rightarrow> string list \<Rightarrow> (string \<rightharpoonup> string) \<Rightarrow> string \<Rightarrow> string list
     \<Rightarrow> string \<times> string list" where
  "drop_loop mandatory [] active title dropped = (title, dropped)"
| "drop_loop mandatory (k # ks) active title dropped =
     (if length title \<le> EBAY_TITLE_MAX then (title, dropped)
      else if group_token active k \<noteq> [] then
        (let active' = active(k \<mapsto> []);
             dropped' = dropped @ [k];
             title' = join_tokens (title_tokens mandatory active')
         in drop_loop mandatory ks active' title' dropped')
      else drop_loop mandatory ks active title dropped)"

definition overflow_message :: "string \<Rightarrow> string" where
  "overflow_message title =
     ''Mandatory fields exceed '' @ str_nat EBAY_TITLE_MAX @ '' chars after drops. Title=''
       @ [CHR 0x27] @ title @ [CHR 0x27] @ '' ('' @ str_nat (length title) @ '' chars)''"

definition build_ebay_title :: "dict \<Rightarrow> py_error + (string \<times> string list)" where
  "build_ebay_title crd =
     (let inp = title_inputs crd;
          mandatory = mandatory_tokens inp
      in and_then (parse_serial_for_ebay (serial_raw inp)) (\<lambda>parsed.
           let serial_fmt = (case parsed of None \<Rightarrow> [] | Some s \<Rightarrow> s);
               gv = map_of (group_values inp serial_fmt);
               title = join_tokens (title_tokens mandatory gv);
               (title, dropped) =
                 (if length title > EBAY_TITLE_MAX
                  then drop_loop mandatory drop_priority gv title []
                  else (title, []))
           in if length title > EBAY_TITLE_MAX then Inl (ValueError (overflow_message title))
              else Inr (title, dropped)))"

section \<open>Notions used in the statements about the title\<close>

text \<open>
  A string is tidy when cleaning leaves it as it is: no whitespace at either end, and
  inside only single spaces.
\<close>

definition tidy :: "string \<Rightarrow> bool" where
  "tidy s = (collapse_ws s = s \<and> (s = [] \<or> (\<not> is_space (hd s) \<and> \<not> is_space (last s))))"

text \<open>The dict \<open>active\<close> after the groups \<open>ds\<close> have been blanked.\<close>

definition drop_groups :: "(string \<rightharpoonup> string) \<Rightarrow> string list \<Rightarrow> (string \<rightharpoonup> string)" where
  "drop_groups active ds = fold (\<lambda>k a. a(k \<mapsto> [])) ds active"

text \<open>
  The value of the local \<open>serial_fmt\<close> when the formatter returns (the empty string
  when it returns None), and the dict \<open>group_values\<close> built with it.
\<close>

definition serial_fmt_of :: "TitleInputs \<Rightarrow> string" where
  "serial_fmt_of inp =
     (case parse_serial_for_ebay (serial_raw inp) of Inr (Some s) \<Rightarrow> s | _ \<Rightarrow> [])"

definition title_groups :: "TitleInputs \<Rightarrow> (string \<times> string) list" where
  "title_groups inp = group_values inp (serial_fmt_of inp)"

text \<open>The groups of \<open>drop_priority\<close>, in that order, that the card holds non-empty.\<close>

definition present_groups :: "TitleInputs \<Rightarrow> string list" where
  "present_groups inp =
     filter (\<lambda>k. group_token (map_of (title_groups inp)) k \<noteq> []) drop_priority"

text \<open>
  The title spelled out: the non-empty mandatory tokens, then the non-empty values of the
  groups that were not dropped, in the order of the dict \<open>group_values\<close> (which is
  \<open>include_order\<close>), separated by single spaces.
\<close>

definition title_without :: "TitleInputs \<Rightarrow> string list \<Rightarrow> string" where
  "title_without inp dropped =
     intercalate '' '' (filter (\<lambda>t. t \<noteq> [])
       (mandatory_tokens inp @ map snd (filter (\<lambda>(k, v). k \<notin> set dropped) (title_groups inp))))"

text \<open>
  Three cards: one whose title needs drops, one whose mandatory tokens alone overflow, and
  one with nothing but a serial of 4301 digits after the slash.
\<close>

definition long_serial_card :: dict where
  "long_serial_card = [(''serial_number'', JStr (CHR ''/'' # replicate 4301 (CHR ''9'')))]"


definition rookie_card :: dict where
  "rookie_card =
     [(''year'', JInt 2023), (''brand'', JStr ''Topps''),
      (''set'', JStr ''Chrome Sapphire Edition Update Series''),
      (''player_first'', JStr ''Jane''), (''player_last'', JStr ''Doe''),
      (''card_number'', JStr ''15''), (''serial_number'', JStr ''1/99''),
      (''team_city'', JStr ''Chicago''), (''team_name'', JStr ''Bulls''),
      (''rookie'', JStr ''RC''), (''parallel'', JStr ''Gold Refractor Wave'')]"

definition overlong_card :: dict where
  "overlong_card =
     [(''year'', JInt 2023), (''brand'', JStr ''Topps''),
      (''set'', JStr
        ''Chrome Sapphire Edition Update Series Hobby Exclusive Anniversary Collection''),
      (''player_first'', JStr ''Jane''), (''player_last'', JStr ''Doe''),
      (''card_number'', JStr ''15''), (''rookie'', JStr ''RC'')]"

section \<open>The item-specifics pipeline\<close>

text \<open>
  The mapping under construction is a map from aspect names to values. A step that can
  raise returns a sum; \<open>and_then\<close> passes the mapping on and lets an exception through.
\<close>

type_synonym item = "string \<rightharpoonup> json"

fun fold_err :: "('s \<Rightarrow> 'a \<Rightarrow> py_error + 's) \<Rightarrow> 'a list \<Rightarrow> 's \<Rightarrow> py_error + 's" where
  "fold_err f [] s = Inr s"
| "fold_err f (x # xs) s = (case f s x of Inl e \<Rightarrow> Inl e | Inr s' \<Rightarrow> fold_err f xs s')"

text \<open>\<open>item.get(k)\<close> and \<open>item.get(k, default)\<close>.\<close>

definition iget :: "item \<Rightarrow> string \<Rightarrow> json" where
  "iget it k = (case it k of None \<Rightarrow> JNull | Some v \<Rightarrow> v)"

definition iget_default :: "item \<Rightarrow> string \<Rightarrow> json \<Rightarrow> json" where
  "iget_default it k dflt = (case it k of None \<Rightarrow> dflt | Some v \<Rightarrow> v)"

text \<open>\<open>for k, v in d.items(): item[k] = v\<close>.\<close>

definition copy_items :: "dict \<Rightarrow> item \<Rightarrow> item" where
  "copy_items d it = foldl (\<lambda>it kv. it(fst kv \<mapsto> snd kv)) it d"

definition strip_hash :: "string \<Rightarrow> string" where
  "strip_hash s0 =
     (let s = strip s0 in if starts_with ''#'' s then strip (tl s) else s)"

text \<open>\<open>s.replace("of", "/")\<close> and \<open>s.split("/")\<close>.\<close>

fun replace_of :: "string \<Rightarrow> string" where
  "replace_of (c # d # cs) =
     (if c = CHR ''o'' \<and> d = CHR ''f'' then CHR ''/'' # replace_of cs
      else c # replace_of (d # cs))"
| "replace_of cs = cs"

fun split_slash :: "string \<Rightarrow> string list" where
  "split_slash [] = ['''']"
| "split_slash (c # cs) =
     (if c = CHR ''/'' then [] # split_slash cs
      else case split_slash cs of
        [] \<Rightarrow> [[c]]
      | p # ps \<Rightarrow> (c # p) # ps)"

definition isdigit :: "string \<Rightarrow> bool" where
  "isdigit s = (s \<noteq> [] \<and> list_all is_digit s)"

definition serial_denominator_only_no_slash :: "json \<Rightarrow> py_error + string" where
  "serial_denominator_only_no_slash serial =
     (let s = norm_optional serial in
      if s = [] then Inr []
      else
        let s = replace_of (lower s) in
        if CHR ''/'' \<in> set s then
          (let parts = split_slash s in
           if 2 \<le> length parts \<and> isdigit (strip (last parts))
           then (case py_int (strip (last parts)) of
                   Inl e \<Rightarrow> Inl e
                 | Inr n \<Rightarrow> Inr (str_int n))
           else Inr [])
        else if isdigit s
          then (case py_int s of Inl e \<Rightarrow> Inl e | Inr n \<Rightarrow> Inr (str_int n))
        else Inr [])"

definition get_player_name :: "dict \<Rightarrow> py_error + string" where
  "get_player_name crd =
     and_then (strip_method
        (py_or (py_or (dget crd ''player_first'') (dget crd ''player_first_name'')) (JStr [])))
       (\<lambda>pf. and_then (strip_method
          (py_or (py_or (dget crd ''player_last'') (dget crd ''player_last_name'')) (JStr [])))
         (\<lambda>pl. Inr (strip (pf @ '' '' @ pl))))"

subsection \<open>1) Globals\<close>

definition defaults_layer :: "dict \<Rightarrow> item" where
  "defaults_layer globals_defaults = copy_items globals_defaults Map.empty"

subsection \<open>2) Direct fields\<close>

definition direct_map :: "dict \<Rightarrow> py_error + (string \<times> json) list" where
  "direct_map crd =
     and_then
       (let a = py_or (dget crd ''player_athlete'') (dget crd ''Player/Athlete'') in
        if truthy a then Inr a
        else and_then (get_player_name crd) (\<lambda>n. Inr (JStr n)))
       (\<lambda>player. Inr
         [(''Player/Athlete'', player),
          (''Manufacturer'', py_or (dget crd ''Manufacturer'') (dget crd ''brand'')),
          (''Set'', py_or (py_or (dget crd ''Set'') (dget crd ''set'')) (dget crd ''set_name'')),
          (''Team'', py_or (py_or (dget crd ''Team'') (dget crd ''team_name'')) (dget crd ''team'')),
          (''Season'', py_or (dget crd ''Season'') (dget crd ''year'')),
          (''Year Manufactured'', py_or (dget crd ''Year Manufactured'') (dget crd ''year'')),
          (''Parallel/Variety'', py_or (dget crd ''Parallel/Variety'') (dget crd ''parallel'')),
          (''Features'', dget crd ''Features''),
          (''Insert Set'',
             py_or (py_or (dget crd ''Insert Set'') (dget crd ''insert_set'')) (dget crd ''insert'')),
          (''Autographed'', py_or (dget crd ''Autographed'') (dget crd ''autographed'')),
          (''Professional Grader'',
             py_or (py_or (dget crd ''Professional Grader'') (dget crd ''grading_company''))
               (dget crd ''grader'')),
          (''Grade'',
             py_or (py_or (dget crd ''Grade'') (dget crd ''grade'')) (dget crd ''numerical_grade'')),
          (''Card Thickness'', dget crd ''Card Thickness''),
          (''Event/Tournament'', dget crd ''Event/Tournament''),
          (''League'', dget crd ''League''),
          (''Card Name'', dget crd ''Card Name''),
          (''Card Number'', py_or (dget crd ''Card Number'') (dget crd ''card_number'')),
          (''Print Run'', dget crd ''Print Run''),
          (''Signed By'', dget crd ''Signed By''),
          (''Autograph Authentication'', dget crd ''Autograph Authentication''),
          (''Autograph Authentication Number'', dget crd ''Autograph Authentication Number''),
          (''Autograph Format'', dget crd ''Autograph Format''),
          (''California Prop 65 Warning'', dget crd ''California Prop 65 Warning''),
          (''Sport'', py_or (dget crd ''Sport'') (dget crd ''sport'')),
          (''Type'', dget crd ''Type'')])"

definition write_direct :: "item \<Rightarrow> string \<times> json \<Rightarrow> item" where
  "write_direct it ar =
     (case ar of (aspect, raw) \<Rightarrow>
        if aspect = ''Features'' then
          (case raw of
             JList xs \<Rightarrow>
               if xs \<noteq> []
               then it(aspect \<mapsto>
                 JList (map JStr (filter (\<lambda>s. s \<noteq> []) (map (\<lambda>x. strip (py_str x)) xs))))
               else it
           | JStr s \<Rightarrow> if strip s \<noteq> [] then it(aspect \<mapsto> JStr (strip s)) else it
           | _ \<Rightarrow> it)
        else
          (let s = norm_optional raw in
           if s \<noteq> [] then it(aspect \<mapsto> JStr s) else it))"

definition direct_layer :: "dict \<Rightarrow> item \<Rightarrow> py_error + item" where
  "direct_layer crd it = and_then (direct_map crd) (\<lambda>dm. Inr (foldl write_direct it dm))"

subsection \<open>3) Derive and enforce\<close>

definition derive_rule :: "dict \<Rightarrow> item \<Rightarrow> string \<times> json \<Rightarrow> py_error + item" where
  "derive_rule crd it tr =
     (case tr of (target, rule) \<Rightarrow>
        (case rule of
           JDict r \<Rightarrow>
             (let src = dget r ''from''; xform = dget r ''transform'' in
              and_then
                (if src = JStr ''player_name'' then get_player_name crd
                 else if src = JStr ''card_number''
                   then Inr (strip (py_str (dget_default crd ''card_number'' (JStr []))))
                 else if src = JStr ''serial_number''
                   then Inr (strip (py_str (dget_default crd ''serial_number'' (JStr []))))
                 else if src = JStr ''year''
                   then Inr (strip (py_str (dget_default crd ''year'' (JStr []))))
                 else Inr [])
                (\<lambda>val. and_then
                  (if xform = JStr ''strip_hash'' then Inr (strip_hash val)
                   else if xform = JStr ''serial_denominator_only_no_slash''
                     then serial_denominator_only_no_slash (JStr val)
                   else Inr val)
                  (\<lambda>val. Inr (if val \<noteq> [] then it(target \<mapsto> JStr val) else it))))
         | _ \<Rightarrow> Inr it))"

definition derive_layer :: "dict \<Rightarrow> dict \<Rightarrow> item \<Rightarrow> py_error + item" where
  "derive_layer crd enforced it =
     (case dget_default enforced ''derive_and_enforce'' (JDict []) of
        JDict dae \<Rightarrow> fold_err (derive_rule crd) dae it
      | _ \<Rightarrow> Inr it)"

subsection \<open>4) Conditional aspects\<close>

text \<open>The scan of a rule list for the first rule whose \<open>when.Sport\<close> is the sport.\<close>

fun sport_rules :: "string \<Rightarrow> string \<Rightarrow> json list \<Rightarrow> item \<Rightarrow> py_error + item" where
  "sport_rules k sport [] it = Inr it"
| "sport_rules k sport (r # rs) it =
     (case r of
        JDict rd \<Rightarrow>
          (if (case dget_default rd ''when'' (JDict []) of
                 JDict whn \<Rightarrow> dget whn ''Sport'' = JStr sport
               | _ \<Rightarrow> False)
           then (let v = norm_optional (dget rd ''value'') in
                 Inr (if v \<noteq> [] then it(k \<mapsto> JStr v) else it))
           else sport_rules k sport rs it)
      | _ \<Rightarrow> Inl AttributeError)"

definition sport_mapping :: "dict \<Rightarrow> string \<Rightarrow> item \<Rightarrow> string \<Rightarrow> py_error + item" where
  "sport_mapping ca sport it k =
     (case map_of ca k of
        Some (JDict cak) \<Rightarrow>
          if sport \<noteq> [] then
            (case dget_default cak ''rules'' (JList []) of
               JList rules \<Rightarrow> sport_rules k sport rules it
             | _ \<Rightarrow> Inr it)
          else Inr it
      | _ \<Rightarrow> Inr it)"

fun is_str :: "json \<Rightarrow> bool" where
  "is_str (JStr s) = True"
| "is_str v = False"

text \<open>
  The text searched for \<open>Memorabilia\<close>: a list is joined by spaces, which raises a
  TypeError when an element is not a string; anything else is printed by \<open>str\<close>.
\<close>

definition features_text :: "json \<Rightarrow> py_error + string" where
  "features_text feats =
     (case feats of
        JList xs \<Rightarrow>
          if list_all is_str xs then Inr (intercalate '' '' (map py_str xs)) else Inl TypeError
      | _ \<Rightarrow> Inr (py_str feats))"

definition card_thickness :: "dict \<Rightarrow> item \<Rightarrow> py_error + item" where
  "card_thickness ca it0 =
     (case map_of ca ''Card Thickness'' of
        Some (JDict ct) \<Rightarrow>
          (let it =
             (if norm_optional (iget it0 ''Card Thickness'') = [] then
                (let dflt = norm_optional (dget ct ''default'') in
                 if dflt \<noteq> [] then it0(''Card Thickness'' \<mapsto> JStr dflt) else it0)
              else it0)
           in and_then (features_text (iget_default it ''Features'' (JList [])))
             (\<lambda>feats_text.
                Inr (if contains ''Memorabilia'' feats_text
                     then it(''Card Thickness'' \<mapsto> JStr []) else it)))
      | _ \<Rightarrow> Inr it0)"

definition conditional_layer :: "dict \<Rightarrow> item \<Rightarrow> py_error + item" where
  "conditional_layer enforced it =
     and_then (strip_method (py_or (iget it ''Sport'') (JStr [])))
       (\<lambda>sport.
          case dget_default enforced ''conditional_aspects'' (JDict []) of
            JDict ca \<Rightarrow>
              (let it = (if map_of ca ''California Prop 65 Warning'' \<noteq> None
                         then it(''California Prop 65 Warning'' \<mapsto> JStr []) else it)
               in and_then (fold_err (sport_mapping ca sport) [''League'', ''Event/Tournament''] it)
                    (card_thickness ca))
          | _ \<Rightarrow> Inr it)"

subsection \<open>5) Autograph dependencies\<close>

text \<open>\<open>current not in allowed\<close>, for a string \<open>current\<close>.\<close>

definition not_in :: "string \<Rightarrow> json \<Rightarrow> py_error + bool" where
  "not_in current allowed =
     (case allowed of
        JList xs \<Rightarrow> Inr (JStr current \<notin> set xs)
      | JStr s \<Rightarrow> Inr (\<not> contains current s)
      | JDict d \<Rightarrow> Inr (current \<notin> fst ` set d)
      | _ \<Rightarrow> Inl TypeError)"

definition when_yes_rules :: "dict \<Rightarrow> dict \<Rightarrow> item \<Rightarrow> py_error + item" where
  "when_yes_rules crd when_yes it =
     and_then
       (case dget when_yes ''Signed By'' of
          JDict sb \<Rightarrow>
            if dget sb ''from'' = JStr ''player_name''
            then and_then (get_player_name crd) (\<lambda>n. Inr (it(''Signed By'' \<mapsto> JStr n)))
            else Inr it
        | _ \<Rightarrow> Inr it)
       (\<lambda>it.
          let it = (case dget when_yes ''Autograph Authentication'' of
                      JDict aa \<Rightarrow>
                        (case map_of aa ''value'' of
                           Some v \<Rightarrow> it(''Autograph Authentication'' \<mapsto> v)
                         | None \<Rightarrow> it)
                    | _ \<Rightarrow> it);
              it = it(''Autograph Authentication Number'' \<mapsto> JStr [])
          in case dget when_yes ''Autograph Format'' of
               JDict af \<Rightarrow>
                 (let allowed = dget_default af ''allowed_by_policy'' (JList []);
                      current = norm_optional (iget it ''Autograph Format'')
                  in if current \<noteq> [] \<and> truthy allowed
                     then and_then (not_in current allowed)
                       (\<lambda>b. Inr (if b then it(''Autograph Format'' \<mapsto> JStr []) else it))
                     else Inr it)
             | _ \<Rightarrow> Inr it)"

definition autograph_layer :: "dict \<Rightarrow> dict \<Rightarrow> item \<Rightarrow> py_error + item" where
  "autograph_layer crd enforced it =
     (case dget_default enforced ''autograph_rules'' (JDict []) of
        JDict ar \<Rightarrow>
          (case dget ar ''Autographed'' of
             JDict blk \<Rightarrow>
               (let auto_s = norm_optional (iget it ''Autographed'') in
                if lower auto_s = ''no'' then
                  (case dget_default blk ''when_no'' (JDict []) of
                     JDict when_no \<Rightarrow> Inr (copy_items when_no it)
                   | _ \<Rightarrow> Inr it)
                else if lower auto_s = ''yes'' then
                  (case dget_default blk ''when_yes'' (JDict []) of
                     JDict when_yes \<Rightarrow> when_yes_rules crd when_yes it
                   | _ \<Rightarrow> Inr it)
                else Inr it)
           | _ \<Rightarrow> Inr it)
      | _ \<Rightarrow> Inr it)"

subsection \<open>6) to 9) Fallback defaults, print run, insert set\<close>

definition parallel_default :: "dict \<Rightarrow> item \<Rightarrow> item" where
  "parallel_default enforced it =
     (case dget_default enforced ''parallel_variety_rules'' (JDict []) of
        JDict pvr \<Rightarrow>
          if norm_optional (iget it ''Parallel/Variety'') = []
          then it(''Parallel/Variety'' \<mapsto> dget_default pvr ''default'' (JStr ''[Base]''))
          else it
      | _ \<Rightarrow> it)"

definition features_default :: "dict \<Rightarrow> item \<Rightarrow> item" where
  "features_default enforced it =
     (case dget_default enforced ''features_rules'' (JDict []) of
        JDict fr \<Rightarrow>
          if \<not> truthy (iget it ''Features'')
          then it(''Features'' \<mapsto>
            dget_default fr ''default_if_none_detected'' (JList [JStr ''Base Set'']))
          else it
      | _ \<Rightarrow> it)"

definition print_run :: "dict \<Rightarrow> item \<Rightarrow> py_error + item" where
  "print_run crd it =
     and_then (serial_denominator_only_no_slash (dget crd ''serial_number''))
       (\<lambda>denom. Inr (if denom \<noteq> [] then it(''Print Run'' \<mapsto> JStr denom) else it))"

definition insert_set :: "dict \<Rightarrow> item \<Rightarrow> item" where
  "insert_set crd it =
     (let ins = norm_optional (py_or (dget crd ''insert_set'') (dget crd ''insert'')) in
      if ins \<noteq> [] then it(''Insert Set'' \<mapsto> JStr ins) else it)"

subsection \<open>The whole derivation\<close>

text \<open>The mapping as the conditional layer receives it: steps 1 to 3.\<close>

definition derived_item :: "dict \<Rightarrow> dict \<Rightarrow> dict \<Rightarrow> py_error + item" where
  "derived_item crd globals_defaults enforced =
     and_then (direct_layer crd (defaults_layer globals_defaults)) (derive_layer crd enforced)"

definition build_item_specifics :: "dict \<Rightarrow> dict \<Rightarrow> dict \<Rightarrow> py_error + item" where
  "build_item_specifics crd globals_defaults enforced =
     and_then (derived_item crd globals_defaults enforced) (\<lambda>it.
     and_then (conditional_layer enforced it) (\<lambda>it.
     and_then (autograph_layer crd enforced it) (\<lambda>it.
     and_then (print_run crd (features_default enforced (parallel_default enforced it))) (\<lambda>it.
     Inr (insert_set crd it)))))"


section \<open>Notions used in the statements about the item specifics\<close>

text \<open>A computation returns, and its value satisfies a predicate.\<close>

definition returns_with :: "py_error + 'a \<Rightarrow> ('a \<Rightarrow> bool) \<Rightarrow> bool" where
  "returns_with r P = (case r of Inl e \<Rightarrow> False | Inr x \<Rightarrow> P x)"

text \<open>
  A string value is false-like when it is a boolean, or a string whose trimmed, lowercased
  form is one of the words that the normalizer blanks. It is normalized when it is a
  non-empty string that the normalizer returns as it is.
\<close>

definition false_like :: "json \<Rightarrow> bool" where
  "false_like v =
     (case v of
        JBool b \<Rightarrow> True
      | JStr s \<Rightarrow> lower (strip s) \<in> set [''false'', ''no'', ''none'', ''n/a'', ''na'']
      | _ \<Rightarrow> False)"

definition normalized :: "json \<Rightarrow> bool" where
  "normalized v = (case v of JStr s \<Rightarrow> s \<noteq> [] \<and> norm_optional (JStr s) = s | _ \<Rightarrow> False)"

text \<open>The targets of the derive-and-enforce rules.\<close>

definition derive_targets :: "dict \<Rightarrow> string set" where
  "derive_targets enforced =
     (case dget_default enforced ''derive_and_enforce'' (JDict []) of
        JDict dae \<Rightarrow> fst ` set dae
      | _ \<Rightarrow> {})"

text \<open>
  The mapping \<open>it'\<close> differs from \<open>it\<close> only at keys where it holds a value that
  \<open>Q\<close> admits for the key. Each step of the derivation is described by the writes it
  may make.
\<close>

definition changes :: "(string \<Rightarrow> json \<Rightarrow> bool) \<Rightarrow> item \<Rightarrow> item \<Rightarrow> bool" where
  "changes Q it it' = (\<forall>k. it' k = it k \<or> (\<exists>v. it' k = Some v \<and> Q k v))"

definition conditional_write :: "string \<Rightarrow> json \<Rightarrow> bool" where
  "conditional_write k v =
     (k \<in> {''California Prop 65 Warning'', ''League'', ''Event/Tournament'', ''Card Thickness''}
      \<and> (normalized v \<or> v = JStr []))"

definition autograph_write :: "string \<Rightarrow> json \<Rightarrow> bool" where
  "autograph_write k v =
     (k = ''Signed By'' \<or> k = ''Autograph Authentication''
      \<or> ((k = ''Autograph Authentication Number'' \<or> k = ''Autograph Format'') \<and> v = JStr []))"

definition unnormalized_write :: "dict \<Rightarrow> dict \<Rightarrow> string \<Rightarrow> json \<Rightarrow> bool" where
  "unnormalized_write g e k v =
     ((k, v) \<in> set g \<or> k \<in> derive_targets e
      \<or> k = ''Features'' \<or> k = ''Parallel/Variety'' \<or> k = ''Signed By''
      \<or> k = ''Autograph Authentication''
      \<or> \<not> false_like v)"

text \<open>Example cards and rules.\<close>

definition unsigned_card :: dict where
  "unsigned_card = [(''Autographed'', JStr ''No''), (''Signed By'', JStr ''Jane Doe'')]"

definition blanking_rules :: dict where
  "blanking_rules =
     [(''autograph_rules'',
        JDict [(''Autographed'', JDict [(''when_no'', JDict [(''Signed By'', JStr [])])])])]"

definition memorabilia_card :: dict where
  "memorabilia_card =
     [(''Features'', JList [JStr ''Memorabilia'']), (''Card Thickness'', JStr ''55pt'')]"

definition thickness_rules :: dict where
  "thickness_rules =
     [(''conditional_aspects'', JDict [(''Card Thickness'', JDict [(''default'', JStr ''35pt'')])])]"

definition numbered_card :: dict where
  "numbered_card = [(''serial_number'', JStr ''12/99''), (''Print Run'', JStr ''50'')]"

section \<open>The normalizer's contract\<close>

text \<open>
  C7. The field normalizer is a total function of its argument alone. It returns the
  empty string for null, for boolean false, for a string that is empty or all whitespace
  and for a string whose trimmed, lowercased form is one of false, no, none, n/a, na; it
  returns the trimmed string for every other string; and it returns the empty string for a
  value of any other type.
\<close>

theorem norm_optional_contract:
  "norm_optional JNull = [] \<and> norm_optional (JBool False) = []
   \<and> (\<forall>s. strip s = [] \<longrightarrow> norm_optional (JStr s) = [])
   \<and> (\<forall>s. lower (strip s) \<in> {''false'', ''no'', ''none'', ''n/a'', ''na''}
          \<longrightarrow> norm_optional (JStr s) = [])
   \<and> (\<forall>s. strip s \<noteq> [] \<and> lower (strip s) \<notin> {''false'', ''no'', ''none'', ''n/a'', ''na''}
          \<longrightarrow> norm_optional (JStr s) = strip s)
   \<and> (\<forall>v. (\<forall>s. v \<noteq> JStr s) \<longrightarrow> norm_optional v = [])"
proof -
  have other: "norm_optional v = []" if "\<forall>s. v \<noteq> JStr s" for v
    using that by (cases v) (simp_all add: norm_optional_def)
  have blank: "norm_optional (JStr s) = []" if "strip s = []" for s
    using that by (simp add: norm_optional_def)
  have falsy: "norm_optional (JStr s) = []"
    if "lower (strip s) \<in> {''false'', ''no'', ''none'', ''n/a'', ''na''}" for s
    using that by (simp add: norm_optional_def Let_def)
  have kept: "norm_optional (JStr s) = strip s"
    if "strip s \<noteq> [] \<and> lower (strip s) \<notin> {''false'', ''no'', ''none'', ''n/a'', ''na''}" for s
    using that by (simp add: norm_optional_def Let_def)
  have null: "norm_optional JNull = []" "norm_optional (JBool False) = []"
    by (simp_all add: norm_optional_def)
  from null other blank falsy kept show ?thesis
    by blast
qed

theorem norm_optional_contract_witness:
  "lower (strip ''  No '') \<in> {''false'', ''no'', ''none'', ''n/a'', ''na''}
   \<and> norm_optional (JStr ''  No '') = []
   \<and> strip '' Gold  Wave '' \<noteq> []
   \<and> lower (strip '' Gold  Wave '') \<notin> {''false'', ''no'', ''none'', ''n/a'', ''na''}
   \<and> norm_optional (JStr '' Gold  Wave '') = ''Gold  Wave''
   \<and> strip ''   '' = [] \<and> norm_optional (JStr ''   '') = []
   \<and> norm_optional (JInt 10) = [] \<and> norm_optional (JBool True) = []"
proof -
  note t = norm_optional_contract
  have a: "lower (strip ''  No '') \<in> {''false'', ''no'', ''none'', ''n/a'', ''na''}"
    by code_simp
  have b: "strip '' Gold  Wave '' = ''Gold  Wave''"
    by code_simp
  have c: "strip '' Gold  Wave '' \<noteq> []
      \<and> lower (strip '' Gold  Wave '') \<notin> {''false'', ''no'', ''none'', ''n/a'', ''na''}"
    by code_simp
  have d: "strip ''   '' = []"
    by code_simp
  from t a have 1: "norm_optional (JStr ''  No '') = []"
    by blast
  from t c have 2: "norm_optional (JStr '' Gold  Wave '') = strip '' Gold  Wave ''"
    by blast
  from t d have 3: "norm_optional (JStr ''   '') = []"
    by blast
  have "\<forall>s. JInt 10 \<noteq> JStr s" "\<forall>s. JBool True \<noteq> JStr s"
    by simp_all
  with t have 4: "norm_optional (JInt 10) = []" "norm_optional (JBool True) = []"
    by blast+
  from a c d 1 2 3 4 show ?thesis
    unfolding b by blast
qed

section \<open>The serial formatter of the title\<close>

lemma decimal_not_space: "is_decimal c \<Longrightarrow> \<not> is_space c"
  by (auto simp: is_decimal_def is_space_def Let_def)

lemma decimal_lower: "is_decimal c \<Longrightarrow> lower_char c = c"
  by (auto simp: is_decimal_def lower_char_def Let_def)

lemma slash_facts:
  "\<not> is_space (CHR ''/'')" "\<not> is_decimal (CHR ''/'')" "lower_char (CHR ''/'') = CHR ''/''"
  by (simp_all add: is_space_def is_decimal_def lower_char_def)

lemma strip_id:
  assumes "s \<noteq> []" "\<not> is_space (hd s)" "\<not> is_space (last s)"
  shows "strip s = s"
proof -
  have a: "dropWhile is_space s = s" using assms by (cases s) auto
  have "rev s \<noteq> []" "\<not> is_space (hd (rev s))" using assms by (simp_all add: hd_rev)
  then have b: "dropWhile is_space (rev s) = rev s" by (cases "rev s") auto
  show ?thesis by (simp add: strip_def lstrip_def rstrip_def a b)
qed

lemma sub_of_id: "\<forall>c\<in>set s. c \<noteq> CHR ''o'' \<and> c \<noteq> CHR ''O'' \<Longrightarrow> sub_of p s = s"
  by (induction p s rule: sub_of.induct) auto

lemma decimal_not_o: "is_decimal c \<Longrightarrow> c \<noteq> CHR ''o'' \<and> c \<noteq> CHR ''O'' \<and> c \<noteq> CHR ''/''"
  by (auto simp: is_decimal_def)

lemma norm_optional_fraction:
  assumes "ns \<noteq> []" "ds \<noteq> []" "list_all is_decimal ns" "list_all is_decimal ds"
  shows "norm_optional (JStr (ns @ CHR ''/'' # ds)) = ns @ CHR ''/'' # ds"
proof -
  obtain n ns' where ns: "ns = n # ns'" using assms(1) by (cases ns) auto
  have dn: "is_decimal n" using assms(3) ns by simp
  have dl: "is_decimal (last ds)" using assms(2,4) by (simp add: list_all_iff)
  have st: "strip (ns @ CHR ''/'' # ds) = ns @ CHR ''/'' # ds"
    using assms(2) dn dl ns by (intro strip_id) (auto simp: decimal_not_space)
  have "lower_char n = n" using dn by (rule decimal_lower)
  then have "hd (lower (ns @ CHR ''/'' # ds)) = n" by (simp add: ns lower_def)
  moreover have "n \<noteq> CHR ''f''" "n \<noteq> CHR ''n''" using dn by (auto simp: is_decimal_def)
  ultimately have "lower (ns @ CHR ''/'' # ds) \<notin> set [''false'', ''no'', ''none'', ''n/a'', ''na'']"
    by auto
  then show ?thesis using st by (simp add: norm_optional_def ns)
qed

lemma norm_optional_denominator:
  assumes "ds \<noteq> []" "list_all is_decimal ds"
  shows "norm_optional (JStr (CHR ''/'' # ds)) = CHR ''/'' # ds"
proof -
  have dl: "is_decimal (last ds)" using assms by (simp add: list_all_iff)
  have st: "strip (CHR ''/'' # ds) = CHR ''/'' # ds"
    using assms(1) dl by (intro strip_id) (auto simp: decimal_not_space slash_facts)
  have "lower (CHR ''/'' # ds) \<notin> set [''false'', ''no'', ''none'', ''n/a'', ''na'']"
    by (auto simp: lower_def slash_facts)
  then show ?thesis using st by (simp add: norm_optional_def)
qed

lemma takeWhile_decimal_run:
  "list_all is_decimal ns \<Longrightarrow> \<not> is_decimal c \<Longrightarrow> takeWhile is_decimal (ns @ c # r) = ns"
  by (induction ns) auto

lemma dropWhile_decimal_run:
  "list_all is_decimal ns \<Longrightarrow> \<not> is_decimal c \<Longrightarrow> dropWhile is_decimal (ns @ c # r) = c # r"
  by (induction ns) auto

lemma takeWhile_decimal_all: "list_all is_decimal ds \<Longrightarrow> takeWhile is_decimal ds = ds"
  by (induction ds) auto

lemma dropWhile_decimal_all: "list_all is_decimal ds \<Longrightarrow> dropWhile is_decimal ds = []"
  by (induction ds) auto

lemma dropWhile_space_decimal:
  "ds \<noteq> [] \<Longrightarrow> list_all is_decimal ds \<Longrightarrow> dropWhile is_space ds = ds"
  by (cases ds) (auto simp: decimal_not_space)

lemma match_fraction_at_fraction:
  assumes "ns \<noteq> []" "ds \<noteq> []" "list_all is_decimal ns" "list_all is_decimal ds"
  shows "match_fraction_at (ns @ CHR ''/'' # ds) = Some (ns, ds)"
  using assms
  by (simp add: match_fraction_at_def takeWhile_decimal_run dropWhile_decimal_run slash_facts
      dropWhile_space_decimal takeWhile_decimal_all)

lemma search_fraction_fraction:
  assumes "ns \<noteq> []" "ds \<noteq> []" "list_all is_decimal ns" "list_all is_decimal ds"
  shows "search_fraction (ns @ CHR ''/'' # ds) = Some (ns, ds)"
proof -
  obtain n ns' where ns: "ns = n # ns'" using assms(1) by (cases ns) auto
  have "search_fraction (n # (ns' @ CHR ''/'' # ds)) = Some (ns, ds)"
    using match_fraction_at_fraction[OF assms] by (simp add: ns)
  then show ?thesis by (simp add: ns)
qed

lemma match_fraction_at_digits: "list_all is_decimal ds \<Longrightarrow> match_fraction_at ds = None"
  by (simp add: match_fraction_at_def dropWhile_decimal_all Let_def)

lemma search_fraction_digits: "list_all is_decimal ds \<Longrightarrow> search_fraction ds = None"
proof (induction ds)
  case Nil
  then show ?case by simp
next
  case (Cons d ds)
  have "match_fraction_at (d # ds) = None" using Cons.prems by (rule match_fraction_at_digits)
  then show ?case using Cons by simp
qed

lemma search_fraction_denominator:
  "list_all is_decimal ds \<Longrightarrow> search_fraction (CHR ''/'' # ds) = None"
  by (simp add: search_fraction_digits match_fraction_at_def slash_facts)

lemma search_denominator_denominator:
  "ds \<noteq> [] \<Longrightarrow> list_all is_decimal ds \<Longrightarrow> search_denominator (CHR ''/'' # ds) = Some ds"
  by (simp add: match_denominator_at_def dropWhile_space_decimal takeWhile_decimal_all)

lemma and_then_Inr:
  "and_then m f = Inr y \<longleftrightarrow> (\<exists>x. m = Inr x \<and> f x = Inr y)"
  by (cases m) (simp_all add: and_then_def)

lemma py_int_decimal:
  "ds \<noteq> [] \<Longrightarrow> list_all is_decimal ds \<Longrightarrow> length ds \<le> 4300 \<Longrightarrow>
     py_int ds = Inr (int_of_digits ds)"
  by (simp add: py_int_def takeWhile_decimal_all INT_MAX_STR_DIGITS_def)

lemma py_int_over:
  "list_all is_decimal ds \<Longrightarrow> 4300 < length ds \<Longrightarrow>
     py_int ds = Inl (ValueError
       (''Exceeds the limit (4300 digits) for integer string conversion: value has ''
         @ str_nat (length ds)
         @ '' digits; use sys.set_int_max_str_digits() to increase the limit''))"
  by (simp add: py_int_def takeWhile_decimal_all INT_MAX_STR_DIGITS_def)

lemma py_int_Inr: "py_int s = Inr n \<Longrightarrow> s \<noteq> [] \<and> list_all is_decimal s \<and> n = int_of_digits s"
  unfolding py_int_def Let_def
  by (auto split: if_splits simp: list_all_iff dest: set_takeWhileD)

lemma parse_fraction:
  assumes "ns \<noteq> []" "ds \<noteq> []" "list_all is_decimal ns" "list_all is_decimal ds"
    and "length ns \<le> 4300" "length ds \<le> 4300"
  shows "parse_serial_for_ebay (JStr (ns @ ''/'' @ ds)) =
     (if int_of_digits ds \<le> 0 then Inr None
      else if int_of_digits ns = 1 \<or> int_of_digits ns = int_of_digits ds
        then Inr (Some (str_int (int_of_digits ns) @ ''/'' @ str_int (int_of_digits ds)))
      else Inr (Some (''/'' @ str_int (int_of_digits ds))))"
proof -
  have "sub_of None (ns @ CHR ''/'' # ds) = ns @ CHR ''/'' # ds"
    using assms(3,4) by (intro sub_of_id) (auto simp: list_all_iff dest: decimal_not_o)
  then show ?thesis
    using assms(1,2) norm_optional_fraction[OF assms(1-4)] search_fraction_fraction[OF assms(1-4)]
      py_int_decimal[OF assms(1,3,5)] py_int_decimal[OF assms(2,4,6)]
    by (simp add: parse_serial_for_ebay_def Let_def and_then_def)
qed

lemma parse_denominator:
  assumes "ds \<noteq> []" "list_all is_decimal ds" "length ds \<le> 4300"
  shows "parse_serial_for_ebay (JStr (''/'' @ ds)) =
     (if int_of_digits ds \<le> 0 then Inr None
      else Inr (Some (''/'' @ str_int (int_of_digits ds))))"
proof -
  have "sub_of None (CHR ''/'' # ds) = CHR ''/'' # ds"
    using assms(2) by (intro sub_of_id) (auto simp: list_all_iff dest: decimal_not_o)
  then show ?thesis
    using assms(1) norm_optional_denominator[OF assms(1,2)]
      search_fraction_denominator[OF assms(2)] search_denominator_denominator[OF assms(1,2)]
      py_int_decimal[OF assms]
    by (simp add: parse_serial_for_ebay_def Let_def and_then_def)
qed

text \<open>Past the digit limit the formatter raises, whatever the denominator's value.\<close>

lemma parse_fraction_over:
  assumes "ns \<noteq> []" "ds \<noteq> []" "list_all is_decimal ns" "list_all is_decimal ds"
    and "length ns \<le> 4300" "4300 < length ds"
  shows "parse_serial_for_ebay (JStr (ns @ ''/'' @ ds)) =
     Inl (ValueError
       (''Exceeds the limit (4300 digits) for integer string conversion: value has ''
         @ str_nat (length ds)
         @ '' digits; use sys.set_int_max_str_digits() to increase the limit''))"
proof -
  have "sub_of None (ns @ CHR ''/'' # ds) = ns @ CHR ''/'' # ds"
    using assms(3,4) by (intro sub_of_id) (auto simp: list_all_iff dest: decimal_not_o)
  then show ?thesis
    using assms(1,2) norm_optional_fraction[OF assms(1-4)] search_fraction_fraction[OF assms(1-4)]
      py_int_decimal[OF assms(1,3,5)] py_int_over[OF assms(4,6)]
    by (simp add: parse_serial_for_ebay_def Let_def and_then_def)
qed

lemma parse_denominator_over:
  assumes "ds \<noteq> []" "list_all is_decimal ds" "4300 < length ds"
  shows "parse_serial_for_ebay (JStr (''/'' @ ds)) =
     Inl (ValueError
       (''Exceeds the limit (4300 digits) for integer string conversion: value has ''
         @ str_nat (length ds)
         @ '' digits; use sys.set_int_max_str_digits() to increase the limit''))"
proof -
  have "sub_of None (CHR ''/'' # ds) = CHR ''/'' # ds"
    using assms(2) by (intro sub_of_id) (auto simp: list_all_iff dest: decimal_not_o)
  then show ?thesis
    using assms(1) norm_optional_denominator[OF assms(1,2)]
      search_fraction_denominator[OF assms(2)] search_denominator_denominator[OF assms(1,2)]
      py_int_over[OF assms(2,3)]
    by (simp add: parse_serial_for_ebay_def Let_def and_then_def)
qed

lemma parse_positive:
  "parse_serial_for_ebay v = Inr (Some r) \<Longrightarrow>
     \<exists>n d. 0 < d \<and> (r = ''/'' @ str_int d \<or> (r = str_int n @ ''/'' @ str_int d \<and> (n = 1 \<or> n = d)))"
  unfolding parse_serial_for_ebay_def Let_def
  by (auto simp: and_then_Inr split: if_splits option.splits prod.splits) (metis not_le)+

text \<open>
  Within the digit limit the formatter does what C4 says. On a fraction \<open>n/d\<close> of two
  digit runs it gives nothing when \<open>d\<close> is zero, keeps the numerator exactly when
  \<open>n = 1\<close> or \<open>n = d\<close>, and gives the denominator-only form otherwise; on \<open>/d\<close> it
  gives \<open>/d\<close> for a positive \<open>d\<close>; and every result it gives has a positive denominator.
\<close>

lemma parse_serial_within_limit:
  "(\<forall>ns ds. ns \<noteq> [] \<and> ds \<noteq> [] \<and> list_all is_decimal ns \<and> list_all is_decimal ds
       \<and> length ns \<le> 4300 \<and> length ds \<le> 4300 \<longrightarrow>
      parse_serial_for_ebay (JStr (ns @ ''/'' @ ds)) =
        (if int_of_digits ds \<le> 0 then Inr None
         else if int_of_digits ns = 1 \<or> int_of_digits ns = int_of_digits ds
           then Inr (Some (str_int (int_of_digits ns) @ ''/'' @ str_int (int_of_digits ds)))
         else Inr (Some (''/'' @ str_int (int_of_digits ds)))))
   \<and> (\<forall>ds. ds \<noteq> [] \<and> list_all is_decimal ds \<and> length ds \<le> 4300 \<longrightarrow>
      parse_serial_for_ebay (JStr (''/'' @ ds)) =
        (if int_of_digits ds \<le> 0 then Inr None
         else Inr (Some (''/'' @ str_int (int_of_digits ds)))))
   \<and> parse_serial_for_ebay (JStr ''1/99'') = Inr (Some ''1/99'')
   \<and> parse_serial_for_ebay (JStr ''50/99'') = Inr (Some ''/99'')
   \<and> parse_serial_for_ebay (JStr ''99/99'') = Inr (Some ''99/99'')
   \<and> parse_serial_for_ebay (JStr ''/25'') = Inr (Some ''/25'')
   \<and> parse_serial_for_ebay (JStr ''0/10'') = Inr (Some ''/10'')
   \<and> parse_serial_for_ebay (JStr ''5/0'') = Inr None
   \<and> parse_serial_for_ebay (JStr ''5/x'') = Inr None
   \<and> (\<forall>v r. parse_serial_for_ebay v = Inr (Some r) \<longrightarrow>
        (\<exists>n d. 0 < d \<and> (r = ''/'' @ str_int d
           \<or> (r = str_int n @ ''/'' @ str_int d \<and> (n = 1 \<or> n = d)))))"
proof -
  have e1: "parse_serial_for_ebay (JStr ''1/99'') = Inr (Some ''1/99'')" by code_simp
  have e2: "parse_serial_for_ebay (JStr ''50/99'') = Inr (Some ''/99'')" by code_simp
  have e3: "parse_serial_for_ebay (JStr ''99/99'') = Inr (Some ''99/99'')" by code_simp
  have e4: "parse_serial_for_ebay (JStr ''/25'') = Inr (Some ''/25'')" by code_simp
  have e5: "parse_serial_for_ebay (JStr ''0/10'') = Inr (Some ''/10'')" by code_simp
  have e6: "parse_serial_for_ebay (JStr ''5/0'') = Inr None" by code_simp
  have e7: "parse_serial_for_ebay (JStr ''5/x'') = Inr None" by code_simp
  show ?thesis
    using parse_fraction parse_denominator parse_positive e1 e2 e3 e4 e5 e6 e7
    by (intro conjI allI impI) (simp_all only: , blast+)
qed

text \<open>
  C4. The claim has the formatter give no result, and never an error, on any input whose
  denominator is not a positive integer. On the fraction \<open>1/0\<dots>0\<close> with 4301 zeros, a
  denominator that is zero, \<open>int\<close> raises the ValueError of the digit limit, and the
  formatter, which catches nothing, raises it too.
\<close>

theorem parse_serial_for_ebay_digit_limit:
  "parse_serial_for_ebay (JStr (''1/'' @ replicate 4301 (CHR ''0''))) =
     Inl (ValueError
       ''Exceeds the limit (4300 digits) for integer string conversion: value has 4301 digits; use sys.set_int_max_str_digits() to increase the limit'')"
proof -
  have n: "str_nat 4301 = ''4301''" by code_simp
  have d: "list_all is_decimal ''1''" "list_all is_decimal (replicate 4301 (CHR ''0''))"
    by (simp_all add: list_all_iff is_decimal_def)
  have "parse_serial_for_ebay (JStr (''1'' @ ''/'' @ replicate 4301 (CHR ''0''))) =
     Inl (ValueError
       (''Exceeds the limit (4300 digits) for integer string conversion: value has ''
         @ str_nat (length (replicate 4301 (CHR ''0'')))
         @ '' digits; use sys.set_int_max_str_digits() to increase the limit''))"
    using d by (intro parse_fraction_over) simp_all
  then show ?thesis by (simp add: n)
qed

text \<open>
  C5, as the code has it. The formatter rewrites the word \<open>of\<close> to a slash before it
  parses, and accepts a denominator without a numerator: on the input \<open>of 10\<close> it gives
  \<open>/10\<close>, and a card whose serial field is \<open>of 10\<close> has the serial group \<open>/10\<close>.
\<close>

theorem parse_serial_of_10_not_absent:
  "parse_serial_for_ebay (JStr ''of 10'') \<noteq> Inr None"
  by code_simp

theorem parse_serial_of_10:
  "parse_serial_for_ebay (JStr ''of 10'') = Inr (Some ''/10'')
   \<and> (\<forall>crd. dget_default crd ''serial'' (dget crd ''serial_number'') = JStr ''of 10'' \<longrightarrow>
         map_of (title_groups (title_inputs crd)) ''serial'' = Some ''/10'')"
proof -
  have p: "parse_serial_for_ebay (JStr ''of 10'') = Inr (Some ''/10'')" by code_simp
  have j: "join_tokens [''/10''] = ''/10''" by code_simp
  show ?thesis
    by (simp add: p j title_groups_def group_values_def title_inputs_def serial_fmt_of_def)
qed

theorem parse_serial_of_10_witness:
  "dget_default [(''serial_number'', JStr ''of 10'')] ''serial''
      (dget [(''serial_number'', JStr ''of 10'')] ''serial_number'') = JStr ''of 10''
   \<and> map_of (title_groups (title_inputs [(''serial_number'', JStr ''of 10'')])) ''serial''
       = Some ''/10''"
proof -
  have h: "dget_default [(''serial_number'', JStr ''of 10'')] ''serial''
      (dget [(''serial_number'', JStr ''of 10'')] ''serial_number'') = JStr ''of 10''"
    by code_simp
  with parse_serial_of_10 show ?thesis
    by blast
qed

section \<open>Cleaning and joining tokens\<close>


lemma dropWhile_nonspace: "s = [] \<or> \<not> is_space (hd s) \<Longrightarrow> dropWhile is_space s = s"
  by (cases s) auto

lemma dropWhile_space_ends: "dropWhile is_space s = [] \<or> \<not> is_space (hd (dropWhile is_space s))"
  using hd_dropWhile[of is_space s] by blast

lemma collapse_ws_Nil_iff: "collapse_ws s = [] \<longleftrightarrow> s = []"
  by (cases s) simp_all

lemma collapse_ws_hd: "s \<noteq> [] \<Longrightarrow> \<not> is_space (hd s) \<Longrightarrow> hd (collapse_ws s) = hd s"
  by (cases s) simp_all

lemma collapse_ws_keeps_start:
  "s = [] \<or> \<not> is_space (hd s) \<Longrightarrow> collapse_ws s = [] \<or> \<not> is_space (hd (collapse_ws s))"
  by (cases s) simp_all

lemma collapse_ws_idem: "collapse_ws (collapse_ws s) = collapse_ws s"
proof (induction s rule: collapse_ws.induct)
  case 1
  then show ?case by simp
next
  case (2 c cs)
  show ?case
  proof (cases "is_space c")
    case True
    let ?ys = "dropWhile is_space cs"
    have "collapse_ws ?ys = [] \<or> \<not> is_space (hd (collapse_ws ?ys))"
      by (rule collapse_ws_keeps_start) (rule dropWhile_space_ends)
    then have "dropWhile is_space (collapse_ws ?ys) = collapse_ws ?ys"
      by (rule dropWhile_nonspace)
    moreover have "is_space (CHR '' '')" by (simp add: is_space_def)
    ultimately show ?thesis using True 2 by simp
  next
    case False
    then show ?thesis using 2 by simp
  qed
qed

lemma last_dropWhile_nonspace:
  "s \<noteq> [] \<Longrightarrow> \<not> is_space (last s) \<Longrightarrow>
     dropWhile is_space s \<noteq> [] \<and> last (dropWhile is_space s) = last s"
  by (induction s) auto

lemma collapse_ws_last: "s \<noteq> [] \<Longrightarrow> \<not> is_space (last s) \<Longrightarrow> last (collapse_ws s) = last s"
proof (induction s rule: collapse_ws.induct)
  case 1
  then show ?case by simp
next
  case (2 c cs)
  show ?case
  proof (cases "cs = []")
    case True
    then show ?thesis using 2 by simp
  next
    case False
    then have l: "\<not> is_space (last cs)" using 2(4) by simp
    show ?thesis
    proof (cases "is_space c")
      case True
      have d: "dropWhile is_space cs \<noteq> [] \<and> last (dropWhile is_space cs) = last cs"
        using False l by (rule last_dropWhile_nonspace)
      then have "last (collapse_ws (dropWhile is_space cs)) = last cs"
        using 2(1)[OF True] l by simp
      moreover have "collapse_ws (dropWhile is_space cs) \<noteq> []"
        using d by (simp only: collapse_ws_Nil_iff not_False_eq_True)
      ultimately show ?thesis using True False by simp
    next
      case no: False
      then show ?thesis using 2(2)[OF no False l] False by (simp add: collapse_ws_Nil_iff)
    qed
  qed
qed

lemma rstrip_prefix: "\<exists>w. s = rstrip s @ w"
proof -
  have "s = rev (takeWhile is_space (rev s) @ dropWhile is_space (rev s))"
    by (simp only: takeWhile_dropWhile_id rev_rev_ident)
  also have "\<dots> = rstrip s @ rev (takeWhile is_space (rev s))"
    by (simp only: rev_append rstrip_def)
  finally show ?thesis ..
qed

lemma strip_ends: "strip s = [] \<or> (\<not> is_space (hd (strip s)) \<and> \<not> is_space (last (strip s)))"
proof (cases "strip s = []")
  case True
  then show ?thesis ..
next
  case False
  let ?t = "lstrip s"
  have ne: "dropWhile is_space (rev ?t) \<noteq> []" using False by (simp add: strip_def rstrip_def)
  have "last (strip s) = hd (dropWhile is_space (rev ?t))"
    using ne by (simp add: strip_def rstrip_def last_rev)
  then have l: "\<not> is_space (last (strip s))" using hd_dropWhile[OF ne] by simp
  obtain w where w: "?t = strip s @ w" using rstrip_prefix[of ?t] by (auto simp: strip_def)
  then have "hd ?t = hd (strip s)" using False by (metis hd_append2)
  moreover have "?t \<noteq> []" using w False by auto
  then have "\<not> is_space (hd ?t)" unfolding lstrip_def by (rule hd_dropWhile)
  ultimately show ?thesis using l by simp
qed

lemma tidy_clean: "tidy (clean s)"
proof (cases "strip s = []")
  case True
  then show ?thesis by (simp add: tidy_def clean_def)
next
  case False
  then have e: "\<not> is_space (hd (strip s))" "\<not> is_space (last (strip s))"
    using strip_ends[of s] by auto
  show ?thesis
    using False e
    by (simp add: tidy_def clean_def collapse_ws_idem collapse_ws_hd collapse_ws_last)
qed

lemma clean_tidy: "tidy s \<Longrightarrow> clean s = s"
proof (cases "s = []")
  case True
  then show ?thesis by (simp add: clean_def strip_def lstrip_def rstrip_def)
next
  case False
  assume "tidy s"
  then have t: "collapse_ws s = s" "\<not> is_space (hd s)" "\<not> is_space (last s)"
    using False by (auto simp: tidy_def)
  have "strip s = s" using False t(2,3) by (rule strip_id)
  then show ?thesis using t(1) by (simp add: clean_def)
qed

lemma clean_idem: "clean (clean s) = clean s"
  by (rule clean_tidy) (rule tidy_clean)

lemma collapse_ws_append:
  "a \<noteq> [] \<Longrightarrow> \<not> is_space (last a) \<Longrightarrow> collapse_ws (a @ r) = collapse_ws a @ collapse_ws r"
proof (induction a rule: collapse_ws.induct)
  case 1
  then show ?case by simp
next
  case (2 c cs)
  show ?case
  proof (cases "cs = []")
    case True
    then show ?thesis using 2(4) by simp
  next
    case False
    then have l: "\<not> is_space (last cs)" using 2(4) by simp
    show ?thesis
    proof (cases "is_space c")
      case True
      have d: "dropWhile is_space cs \<noteq> [] \<and> last (dropWhile is_space cs) = last cs"
        using False l by (rule last_dropWhile_nonspace)
      have "last cs \<in> set cs" using False by simp
      then have "dropWhile is_space (cs @ r) = dropWhile is_space cs @ r"
        using l by (intro dropWhile_append1) auto
      then show ?thesis using True 2(1)[OF True] d l by simp
    next
      case no: False
      then show ?thesis using 2(2)[OF no False l] by simp
    qed
  qed
qed

lemma tidy_join2:
  assumes "tidy a" "a \<noteq> []" "tidy b" "b \<noteq> []"
  shows "tidy (a @ CHR '' '' # b)"
proof -
  have sp: "is_space (CHR '' '')" by (simp add: is_space_def)
  have a: "collapse_ws a = a" "\<not> is_space (hd a)" "\<not> is_space (last a)"
    using assms(1,2) by (auto simp: tidy_def)
  have b: "collapse_ws b = b" "\<not> is_space (hd b)" "\<not> is_space (last b)"
    using assms(3,4) by (auto simp: tidy_def)
  have "dropWhile is_space b = b" using b(2) by (intro dropWhile_nonspace) simp
  then have "collapse_ws (CHR '' '' # b) = CHR '' '' # b" using sp b(1) by simp
  then have "collapse_ws (a @ CHR '' '' # b) = a @ CHR '' '' # b"
    using collapse_ws_append[OF assms(2) a(3)] a(1) by simp
  then show ?thesis using a b assms(2,4) by (simp add: tidy_def)
qed

lemma intercalate_nonempty:
  "ts \<noteq> [] \<Longrightarrow> \<forall>t\<in>set ts. t \<noteq> [] \<Longrightarrow> intercalate sep ts \<noteq> []"
  by (induction sep ts rule: intercalate.induct) auto

lemma tidy_intercalate: "\<forall>t\<in>set ts. tidy t \<and> t \<noteq> [] \<Longrightarrow> tidy (intercalate '' '' ts)"
proof (induction "'' ''" ts rule: intercalate.induct)
  case 1
  then show ?case by (simp add: tidy_def)
next
  case (2 x)
  then show ?case by simp
next
  case (3 x y ys)
  have "intercalate '' '' (y # ys) \<noteq> []" using 3(2) by (intro intercalate_nonempty) auto
  then show ?case using 3 by (simp add: tidy_join2)
qed

lemma join_tokens_eq:
  "join_tokens ts = intercalate '' '' (map clean (filter (\<lambda>t. clean t \<noteq> []) ts))"
  unfolding join_tokens_def
  by (rule clean_tidy, rule tidy_intercalate) (auto simp: tidy_clean)

lemma tidy_join_tokens: "tidy (join_tokens ts)"
  unfolding join_tokens_eq by (rule tidy_intercalate) (auto simp: tidy_clean)

lemma length_intercalate_append:
  "length (intercalate sep xs) \<le> length (intercalate sep (xs @ ys))"
proof (induction sep xs rule: intercalate.induct)
  case (1 sep)
  then show ?case by simp
next
  case (2 sep x)
  then show ?case by (cases ys) simp_all
next
  case (3 sep x y ys)
  then show ?case by simp
qed

lemma length_join_tokens_append: "length (join_tokens xs) \<le> length (join_tokens (xs @ ys))"
  by (simp add: join_tokens_eq length_intercalate_append)

section \<open>The title and its drops\<close>

lemma drop_groups_simps:
  "drop_groups active [] = active"
  "drop_groups active (k # ds) = drop_groups (active(k \<mapsto> [])) ds"
  by (simp_all add: drop_groups_def)

lemma group_token_drop_groups:
  "group_token (drop_groups active ds) k = (if k \<in> set ds then [] else group_token active k)"
  by (induction ds arbitrary: active) (auto simp: drop_groups_simps group_token_def)

lemma title_tokens_drop_Cons:
  "title_tokens mand (drop_groups active (k # ds)) = title_tokens mand (drop_groups (active(k \<mapsto> [])) ds)"
  by (simp add: drop_groups_simps)

lemma drop_loop_spec:
  assumes "distinct ks" "title = join_tokens (title_tokens mand active)"
    "drop_loop mand ks active title dropped = (t', d')"
  shows "\<exists>n\<le>length (filter (\<lambda>k. group_token active k \<noteq> []) ks).
      d' = dropped @ take n (filter (\<lambda>k. group_token active k \<noteq> []) ks)
      \<and> t' = join_tokens (title_tokens mand
            (drop_groups active (take n (filter (\<lambda>k. group_token active k \<noteq> []) ks))))
      \<and> (\<forall>m<n. EBAY_TITLE_MAX < length (join_tokens (title_tokens mand
            (drop_groups active (take m (filter (\<lambda>k. group_token active k \<noteq> []) ks))))))
      \<and> (length t' \<le> EBAY_TITLE_MAX \<or> n = length (filter (\<lambda>k. group_token active k \<noteq> []) ks))"
  using assms
proof (induction ks arbitrary: active title dropped)
  case Nil
  then show ?case by (simp add: drop_groups_simps)
next
  case (Cons k ks)
  let ?F = "\<lambda>a. filter (\<lambda>k. group_token a k \<noteq> [])"
  let ?T = "\<lambda>a ds. join_tokens (title_tokens mand (drop_groups a ds))"
  show ?case
  proof (cases "length title \<le> EBAY_TITLE_MAX")
    case True
    then have "t' = title" "d' = dropped" using Cons.prems(3) by simp_all
    then show ?thesis using True Cons.prems(2) by (intro exI[of _ 0]) (simp add: drop_groups_simps)
  next
    case over: False
    show ?thesis
    proof (cases "group_token active k \<noteq> []")
      case True
      let ?a = "active(k \<mapsto> [])"
      have call: "drop_loop mand ks ?a (join_tokens (title_tokens mand ?a)) (dropped @ [k]) = (t', d')"
        using Cons.prems(3) over True by (simp add: Let_def)
      have "distinct ks" using Cons.prems(1) by simp
      from Cons.IH[OF this refl call]
      obtain n where n: "n \<le> length (?F ?a ks)"
        "d' = (dropped @ [k]) @ take n (?F ?a ks)"
        "t' = ?T ?a (take n (?F ?a ks))"
        "\<forall>m<n. EBAY_TITLE_MAX < length (?T ?a (take m (?F ?a ks)))"
        "length t' \<le> EBAY_TITLE_MAX \<or> n = length (?F ?a ks)"
        by blast
      have same: "?F ?a ks = ?F active ks"
        using Cons.prems(1) by (intro filter_cong) (auto simp: group_token_def)
      have F: "?F active (k # ks) = k # ?F active ks" using True by simp
      have min: "EBAY_TITLE_MAX < length (?T active (take m (?F active (k # ks))))"
        if "m < Suc n" for m
      proof (cases m)
        case 0
        then show ?thesis using over Cons.prems(2) by (simp add: drop_groups_simps)
      next
        case (Suc m')
        then have "m' < n" using that by simp
        then show ?thesis using n(4) unfolding F Suc by (simp add: same drop_groups_simps)
      qed
      show ?thesis
        unfolding F using n(1,2,3,5) min[unfolded F]
        by (intro exI[of _ "Suc n"]) (simp add: same drop_groups_simps)
    next
      case False
      then have call: "drop_loop mand ks active title dropped = (t', d')"
        using Cons.prems(3) over by simp
      have "distinct ks" using Cons.prems(1) by simp
      from Cons.IH[OF this Cons.prems(2) call] False show ?thesis by simp
    qed
  qed
qed

lemma concat_group_tokens:
  assumes "distinct (map fst kvs)"
  shows "concat (map (group_token (drop_groups (map_of kvs) ds)) (map fst kvs)) =
     filter (\<lambda>t. t \<noteq> []) (map snd (filter (\<lambda>(k, v). k \<notin> set ds) kvs))"
proof -
  have "group_token (drop_groups (map_of kvs) ds) (fst kv) =
      (case kv of (k, v) \<Rightarrow> if k \<in> set ds \<or> v = [] then [] else [v])"
    if "kv \<in> set kvs" for kv
  proof -
    obtain k v where kv: "kv = (k, v)" by (cases kv)
    then have "map_of kvs k = Some v" using assms that by simp
    then show ?thesis by (simp add: kv group_token_drop_groups) (simp add: group_token_def)
  qed
  then have m: "map (group_token (drop_groups (map_of kvs) ds)) (map fst kvs) =
      map (\<lambda>(k, v). if k \<in> set ds \<or> v = [] then [] else [v]) kvs"
    unfolding map_map by (intro map_cong[OF refl]) simp
  have c: "concat (map (\<lambda>(k, v). if k \<in> set ds \<or> v = [] then [] else [v]) xs) =
      filter (\<lambda>t. t \<noteq> []) (map snd (filter (\<lambda>(k, v). k \<notin> set ds) xs))"
    for xs :: "(string \<times> string) list"
    by (induction xs) auto
  show ?thesis unfolding m by (rule c)
qed

lemma include_order_keys: "include_order = map fst (title_groups inp)"
  by (simp add: include_order_def title_groups_def group_values_def)

lemma distinct_include_order: "distinct include_order"
  by (simp add: include_order_def)

lemma distinct_drop_priority: "distinct drop_priority"
  by (simp add: drop_priority_def)

lemma include_order_dropped: "set include_order \<subseteq> set drop_priority"
  by (simp add: include_order_def drop_priority_def)

lemma tidy_title_tokens:
  "t \<in> set (mandatory_tokens (title_inputs crd)) \<union> snd ` set (title_groups (title_inputs crd))
     \<Longrightarrow> tidy t"
  by (auto simp: mandatory_tokens_def title_inputs_def title_groups_def group_values_def
      tidy_clean tidy_join_tokens)

lemma join_tokens_tidy:
  assumes "\<forall>t\<in>set ts. tidy t"
  shows "join_tokens ts = intercalate '' '' (filter (\<lambda>t. t \<noteq> []) ts)"
proof -
  have "map clean (filter (\<lambda>t. clean t \<noteq> []) ts) = filter (\<lambda>t. t \<noteq> []) ts"
    using assms by (induction ts) (auto simp: clean_tidy)
  then show ?thesis by (simp add: join_tokens_eq)
qed

lemma title_without_eq:
  "join_tokens (title_tokens (mandatory_tokens (title_inputs crd))
      (drop_groups (map_of (title_groups (title_inputs crd))) ds))
   = title_without (title_inputs crd) ds"
proof -
  let ?inp = "title_inputs crd"
  have d: "distinct (map fst (title_groups ?inp))"
    using distinct_include_order by (simp add: include_order_keys[of ?inp])
  have tt: "title_tokens (mandatory_tokens ?inp) (drop_groups (map_of (title_groups ?inp)) ds) =
      mandatory_tokens ?inp @
        filter (\<lambda>t. t \<noteq> []) (map snd (filter (\<lambda>(k, v). k \<notin> set ds) (title_groups ?inp)))"
    unfolding title_tokens_def include_order_keys[of ?inp] concat_group_tokens[OF d] ..
  have "\<forall>t\<in>set (mandatory_tokens ?inp @
        filter (\<lambda>t. t \<noteq> []) (map snd (filter (\<lambda>(k, v). k \<notin> set ds) (title_groups ?inp)))). tidy t"
    using tidy_title_tokens[of _ crd] by auto
  from join_tokens_tidy[OF this] show ?thesis
    unfolding tt title_without_def by simp
qed

lemma title_tokens_all_dropped:
  "title_tokens mand (drop_groups gv (filter (\<lambda>k. group_token gv k \<noteq> []) drop_priority)) = mand"
proof -
  have "group_token (drop_groups gv (filter (\<lambda>k. group_token gv k \<noteq> []) drop_priority)) k = []"
    if "k \<in> set include_order" for k
    using that include_order_dropped by (auto simp: group_token_drop_groups)
  then have "map (group_token (drop_groups gv (filter (\<lambda>k. group_token gv k \<noteq> []) drop_priority)))
      include_order = map (\<lambda>k. []) include_order"
    by (intro map_cong) simp_all
  then show ?thesis by (simp add: title_tokens_def)
qed

text \<open>An exception of the serial formatter leaves the title builder as it is.\<close>

lemma build_ebay_title_serial_error:
  "parse_serial_for_ebay (serial_raw (title_inputs crd)) = Inl e \<Longrightarrow> build_ebay_title crd = Inl e"
  by (simp add: build_ebay_title_def Let_def and_then_def)

lemma build_ebay_title_Inr_parsed:
  assumes "build_ebay_title crd = Inr r"
  obtains parsed where "parse_serial_for_ebay (serial_raw (title_inputs crd)) = Inr parsed"
  using assms build_ebay_title_serial_error[of crd]
  by (cases "parse_serial_for_ebay (serial_raw (title_inputs crd))") auto

text \<open>What the loop and the guard around it compute, when the serial formatter returns.\<close>

lemma build_ebay_title_run:
  assumes "parse_serial_for_ebay (serial_raw (title_inputs crd)) = Inr parsed"
  obtains n where "n \<le> length (present_groups (title_inputs crd))"
    "\<forall>m<n. EBAY_TITLE_MAX
       < length (title_without (title_inputs crd) (take m (present_groups (title_inputs crd))))"
    "length (title_without (title_inputs crd) (take n (present_groups (title_inputs crd))))
         \<le> EBAY_TITLE_MAX
       \<or> n = length (present_groups (title_inputs crd))"
    "build_ebay_title crd =
       (if EBAY_TITLE_MAX
           < length (title_without (title_inputs crd) (take n (present_groups (title_inputs crd))))
        then Inl (ValueError (overflow_message
          (title_without (title_inputs crd) (take n (present_groups (title_inputs crd))))))
        else Inr (title_without (title_inputs crd) (take n (present_groups (title_inputs crd))),
          take n (present_groups (title_inputs crd))))"
proof -
  let ?inp = "title_inputs crd"
  let ?gv = "map_of (title_groups ?inp)"
  let ?mand = "mandatory_tokens ?inp"
  let ?F = "filter (\<lambda>k. group_token ?gv k \<noteq> []) drop_priority"
  let ?T = "\<lambda>ds. join_tokens (title_tokens ?mand (drop_groups ?gv ds))"
  let ?t0 = "join_tokens (title_tokens ?mand ?gv)"
  have g: "group_values ?inp (case parsed of None \<Rightarrow> [] | Some s \<Rightarrow> s) = title_groups ?inp"
    by (simp add: title_groups_def serial_fmt_of_def assms split: option.splits)
  obtain t d where td: "(if EBAY_TITLE_MAX < length ?t0
      then drop_loop ?mand drop_priority ?gv ?t0 [] else (?t0, [])) = (t, d)"
    by (cases "if EBAY_TITLE_MAX < length ?t0
      then drop_loop ?mand drop_priority ?gv ?t0 [] else (?t0, [])") blast
  have b: "build_ebay_title crd =
      (if EBAY_TITLE_MAX < length t then Inl (ValueError (overflow_message t)) else Inr (t, d))"
    unfolding build_ebay_title_def Let_def assms and_then_def sum.case g td by simp
  have "\<exists>n\<le>length ?F. d = take n ?F \<and> t = ?T (take n ?F)
      \<and> (\<forall>m<n. EBAY_TITLE_MAX < length (?T (take m ?F)))
      \<and> (length t \<le> EBAY_TITLE_MAX \<or> n = length ?F)"
  proof (cases "EBAY_TITLE_MAX < length ?t0")
    case True
    then have "drop_loop ?mand drop_priority ?gv ?t0 [] = (t, d)" using td by simp
    from drop_loop_spec[OF distinct_drop_priority refl this] show ?thesis by simp
  next
    case False
    then have "t = ?t0" "d = []" using td by simp_all
    then show ?thesis using False by (intro exI[of _ 0]) (simp add: drop_groups_simps)
  qed
  then obtain n where n: "n \<le> length ?F" "d = take n ?F" "t = ?T (take n ?F)"
    "\<forall>m<n. EBAY_TITLE_MAX < length (?T (take m ?F))"
    "length t \<le> EBAY_TITLE_MAX \<or> n = length ?F"
    by blast
  have F: "?F = present_groups ?inp" by (simp add: present_groups_def)
  have T: "?T ds = title_without ?inp ds" for ds
    by (rule title_without_eq)
  show thesis
    using n b by (intro that[of n]) (simp_all add: F T)
qed

lemma title_without_all:
  "title_without (title_inputs crd) (present_groups (title_inputs crd)) =
     join_tokens (mandatory_tokens (title_inputs crd))"
  unfolding title_without_eq[symmetric] present_groups_def title_tokens_all_dropped ..

lemma title_without_ge:
  "length (join_tokens (mandatory_tokens (title_inputs crd))) \<le> length (title_without (title_inputs crd) ds)"
  unfolding title_without_eq[symmetric] title_tokens_def by (rule length_join_tokens_append)

text \<open>The example cards, run.\<close>

lemma rookie_card_title:
  "build_ebay_title rookie_card =
     Inr (''2023 Topps Chrome Sapphire Edition Update Series Jane Doe 15 1/99 RC'',
          [''team_city'', ''team_name'', ''parallel''])"
  by code_simp

lemma overlong_card_title:
  "build_ebay_title overlong_card =
     Inl (ValueError (''Mandatory fields exceed 80 chars after drops. Title='' @ [CHR 0x27]
       @ ''2023 Topps Chrome Sapphire Edition Update Series Hobby Exclusive Anniversary Collection Jane Doe 15''
       @ [CHR 0x27] @ '' (99 chars)''))"
  by code_simp

text \<open>
  Whenever the serial formatter returns, the title builder does what C2 says: it returns
  a title of at most 80 characters, which is the mandatory tokens and the groups that were
  not dropped, whole, separated by single spaces; or it raises the ValueError that holds
  the offending title and its length, and it raises it exactly when the six cleaned
  mandatory tokens alone join to more than 80 characters.
\<close>

lemma build_ebay_title_outcomes:
  assumes "parse_serial_for_ebay (serial_raw (title_inputs crd)) = Inr parsed"
  shows "(case build_ebay_title crd of
      Inr (title, dropped) \<Rightarrow>
        length title \<le> 80
        \<and> title = title_without (title_inputs crd) dropped
        \<and> length (join_tokens (mandatory_tokens (title_inputs crd))) \<le> 80
    | Inl e \<Rightarrow>
        80 < length (join_tokens (mandatory_tokens (title_inputs crd)))
        \<and> e = ValueError
            (''Mandatory fields exceed 80 chars after drops. Title='' @ [CHR 0x27]
              @ join_tokens (mandatory_tokens (title_inputs crd)) @ [CHR 0x27] @ '' (''
              @ str_nat (length (join_tokens (mandatory_tokens (title_inputs crd))))
              @ '' chars)''))"
proof -
  let ?inp = "title_inputs crd"
  have s80: "str_nat 80 = ''80''" by code_simp
  obtain n where n: "n \<le> length (present_groups ?inp)"
    "length (title_without ?inp (take n (present_groups ?inp))) \<le> EBAY_TITLE_MAX
       \<or> n = length (present_groups ?inp)"
    "build_ebay_title crd =
       (if EBAY_TITLE_MAX < length (title_without ?inp (take n (present_groups ?inp)))
        then Inl (ValueError (overflow_message (title_without ?inp (take n (present_groups ?inp)))))
        else Inr (title_without ?inp (take n (present_groups ?inp)), take n (present_groups ?inp)))"
    by (rule build_ebay_title_run[OF assms]) blast
  show ?thesis
  proof (cases "EBAY_TITLE_MAX < length (title_without ?inp (take n (present_groups ?inp)))")
    case True
    then have "n = length (present_groups ?inp)" using n(2) by simp
    then have "title_without ?inp (take n (present_groups ?inp)) = join_tokens (mandatory_tokens ?inp)"
      by (simp add: title_without_all)
    then show ?thesis using True n(3) by (simp add: overflow_message_def EBAY_TITLE_MAX_def s80)
  next
    case False
    moreover have "length (join_tokens (mandatory_tokens ?inp))
        \<le> length (title_without ?inp (take n (present_groups ?inp)))"
      by (rule title_without_ge)
    ultimately show ?thesis using n(3) by (simp add: EBAY_TITLE_MAX_def)
  qed
qed

text \<open>
  C2. The claim has the title builder fail only with the overflow error, and exactly
  when the mandatory tokens alone are too long. On the card whose only field is a serial
  of a slash and 4301 nines, the mandatory tokens are all empty and join to the empty
  title, yet the builder raises: the ValueError of the digit limit comes out of the serial
  formatter, which the builder calls without catching anything.
\<close>

theorem build_ebay_title_serial_digit_limit:
  "build_ebay_title long_serial_card =
     Inl (ValueError
       ''Exceeds the limit (4300 digits) for integer string conversion: value has 4301 digits; use sys.set_int_max_str_digits() to increase the limit'')
   \<and> join_tokens (mandatory_tokens (title_inputs long_serial_card)) = []"
proof -
  have n: "str_nat 4301 = ''4301''" by code_simp
  have c: "clean [] = []" by code_simp
  have j: "join_tokens [[], [], [], [], [], []] = []" by code_simp
  have sr: "serial_raw (title_inputs long_serial_card) = JStr (''/'' @ replicate 4301 (CHR ''9''))"
    by (simp add: title_inputs_def long_serial_card_def dget_default_def dget_def)
  have d: "list_all is_decimal (replicate 4301 (CHR ''9''))"
    by (simp add: list_all_iff is_decimal_def)
  have "parse_serial_for_ebay (JStr (''/'' @ replicate 4301 (CHR ''9''))) =
     Inl (ValueError
       (''Exceeds the limit (4300 digits) for integer string conversion: value has ''
         @ str_nat (length (replicate 4301 (CHR ''9'')))
         @ '' digits; use sys.set_int_max_str_digits() to increase the limit''))"
    using d by (intro parse_denominator_over) simp_all
  then have "parse_serial_for_ebay (serial_raw (title_inputs long_serial_card)) =
     Inl (ValueError
       ''Exceeds the limit (4300 digits) for integer string conversion: value has 4301 digits; use sys.set_int_max_str_digits() to increase the limit'')"
    unfolding sr by (simp add: n)
  then have 1: "build_ebay_title long_serial_card =
     Inl (ValueError
       ''Exceeds the limit (4300 digits) for integer string conversion: value has 4301 digits; use sys.set_int_max_str_digits() to increase the limit'')"
    by (rule build_ebay_title_serial_error)
  have "mandatory_tokens (title_inputs long_serial_card) = [[], [], [], [], [], []]"
    by (simp add: mandatory_tokens_def title_inputs_def long_serial_card_def dget_default_def
        py_str_def c)
  then have 2: "join_tokens (mandatory_tokens (title_inputs long_serial_card)) = []"
    by (simp add: j)
  from 1 2 show ?thesis ..
qed

text \<open>
  C3. The list of dropped groups that the title builder returns is a prefix of the
  groups of the drop priority that the card holds non-empty (team city, team name,
  numerical grade, grading company, parallel, insert, serial, auto/patch, rookie, in that
  order). The returned title is the one assembled without exactly these groups, and it
  fits; the title assembled after any shorter prefix of removals is longer than 80
  characters, so the removal stops at the first title that fits.
\<close>

theorem build_ebay_title_drop_order:
  assumes "build_ebay_title crd = Inr (title, dropped)"
  shows "dropped = take (length dropped) (present_groups (title_inputs crd))
     \<and> title = title_without (title_inputs crd) dropped
     \<and> length title \<le> 80
     \<and> (\<forall>m<length dropped.
          80 < length (title_without (title_inputs crd) (take m (present_groups (title_inputs crd)))))"
proof -
  let ?inp = "title_inputs crd"
  from assms obtain parsed where
    parsed: "parse_serial_for_ebay (serial_raw (title_inputs crd)) = Inr parsed"
    by (rule build_ebay_title_Inr_parsed)
  obtain n where n: "n \<le> length (present_groups ?inp)"
    "\<forall>m<n. EBAY_TITLE_MAX < length (title_without ?inp (take m (present_groups ?inp)))"
    "build_ebay_title crd =
       (if EBAY_TITLE_MAX < length (title_without ?inp (take n (present_groups ?inp)))
        then Inl (ValueError (overflow_message (title_without ?inp (take n (present_groups ?inp)))))
        else Inr (title_without ?inp (take n (present_groups ?inp)), take n (present_groups ?inp)))"
    by (rule build_ebay_title_run[OF parsed]) blast
  have fit: "\<not> EBAY_TITLE_MAX < length (title_without ?inp (take n (present_groups ?inp)))"
    using assms n(3) by (auto split: if_splits)
  with n(3) have run: "build_ebay_title crd =
      Inr (title_without ?inp (take n (present_groups ?inp)), take n (present_groups ?inp))"
    by (simp only: if_False)
  have "Inr (title_without ?inp (take n (present_groups ?inp)), take n (present_groups ?inp))
      = (Inr (title, dropped) :: py_error + string \<times> string list)"
    using assms unfolding run .
  then have r: "title = title_without ?inp (take n (present_groups ?inp))"
    "dropped = take n (present_groups ?inp)"
    by (auto simp only: sum.inject prod.inject)
  have len: "length dropped = n" using r(2) n(1) by simp
  have "dropped = take (length dropped) (present_groups ?inp)"
    unfolding len by (rule r(2))
  moreover have "title = title_without ?inp dropped"
    unfolding r(2) by (rule r(1))
  moreover have "length title \<le> 80"
    using fit unfolding r(1) EBAY_TITLE_MAX_def by simp
  moreover have "\<forall>m<length dropped. 80 < length (title_without ?inp (take m (present_groups ?inp)))"
    using n(2) unfolding len EBAY_TITLE_MAX_def .
  ultimately show ?thesis by blast
qed

theorem build_ebay_title_drop_order_witness:
  "build_ebay_title rookie_card =
       Inr (''2023 Topps Chrome Sapphire Edition Update Series Jane Doe 15 1/99 RC'',
            [''team_city'', ''team_name'', ''parallel''])
   \<and> [''team_city'', ''team_name'', ''parallel'']
       = take 3 (present_groups (title_inputs rookie_card))
   \<and> 80 < length (title_without (title_inputs rookie_card)
        (take 2 (present_groups (title_inputs rookie_card))))"
proof -
  note b = rookie_card_title
  have l: "length [''team_city'', ''team_name'', ''parallel''] = 3"
    by simp
  have "(2::nat) < 3"
    by simp
  with build_ebay_title_drop_order[OF b, unfolded l] b show ?thesis
    by blast
qed

section \<open>What each step of the derivation writes\<close>

lemma changes_refl: "changes Q it it"
  by (simp add: changes_def)

lemma changes_upd: "changes Q it it' \<Longrightarrow> Q k v \<Longrightarrow> changes Q it (it'(k \<mapsto> v))"
  by (simp add: changes_def)

lemma changes_trans: "changes Q a b \<Longrightarrow> changes Q b c \<Longrightarrow> changes Q a c"
  unfolding changes_def by metis

lemma changes_mono: "changes Q a b \<Longrightarrow> (\<And>k v. Q k v \<Longrightarrow> Q' k v) \<Longrightarrow> changes Q' a b"
  unfolding changes_def by metis

lemma changes_dom: "changes Q a b \<Longrightarrow> dom a \<subseteq> dom b"
  unfolding changes_def by (metis domD domI subsetI)

lemma changes_frame: "changes Q a b \<Longrightarrow> (\<And>v. \<not> Q k v) \<Longrightarrow> b k = a k"
  unfolding changes_def by metis

lemma changes_fold_err:
  assumes "\<And>s x t. x \<in> set xs \<Longrightarrow> f s x = Inr t \<Longrightarrow> changes Q s t"
  shows "fold_err f xs s = Inr s' \<Longrightarrow> changes Q s s'"
  using assms
proof (induction xs arbitrary: s)
  case Nil
  then show ?case by (simp add: changes_refl)
next
  case (Cons x xs)
  then obtain t where t: "f s x = Inr t" "fold_err f xs t = Inr s'"
    by (auto split: sum.splits)
  have "changes Q s t" using t(1) by (intro Cons.prems(2)) simp_all
  moreover have "changes Q t s'" using t(2) by (intro Cons.IH) (auto intro: Cons.prems(2))
  ultimately show ?case by (rule changes_trans)
qed

lemma changes_foldl:
  assumes "\<And>s x. changes Q s (f s x)"
  shows "changes Q s (foldl f s xs)"
proof (induction xs arbitrary: s)
  case Nil
  then show ?case by (simp add: changes_refl)
next
  case (Cons x xs)
  from assms[of s x] Cons.IH[of "f s x"] show ?case by (simp add: changes_trans)
qed

lemma strip_idem: "strip (strip s) = strip s"
proof (cases "strip s = []")
  case True
  have "strip [] = []" by (simp add: strip_def lstrip_def rstrip_def)
  then show ?thesis using True by simp
next
  case False
  then show ?thesis using strip_ends[of s] by (intro strip_id) auto
qed

lemma normalized_norm_optional: "norm_optional raw \<noteq> [] \<Longrightarrow> normalized (JStr (norm_optional raw))"
  by (cases raw) (auto simp: normalized_def norm_optional_def Let_def strip_idem split: if_splits)

lemma normalized_not_false_like: "normalized v \<Longrightarrow> \<not> false_like v"
  by (cases v) (auto simp: normalized_def false_like_def norm_optional_def Let_def split: if_splits)

lemma empty_not_false_like: "\<not> false_like (JStr [])"
  by (simp add: false_like_def strip_def lstrip_def rstrip_def lower_def)

lemma never_no: "lower (norm_optional v) \<noteq> ''no''"
  by (cases v) (auto simp: norm_optional_def Let_def lower_def)

lemma is_decimal_digit: "d < 10 \<Longrightarrow> is_decimal (char_of (48 + d :: nat))"
  by (simp add: is_decimal_def Let_def)

lemma str_nat_decimal: "str_nat n \<noteq> [] \<and> list_all is_decimal (str_nat n)"
proof (induction n rule: str_nat.induct)
  case (1 n)
  show ?case
  proof (cases "n < 10")
    case True
    then show ?thesis by (subst (1 2) str_nat.simps) (simp add: is_decimal_digit)
  next
    case False
    then show ?thesis using 1 by (subst (1 2) str_nat.simps) (simp add: is_decimal_digit)
  qed
qed

lemma normalized_digits:
  assumes "ds \<noteq> []" "list_all is_decimal ds"
  shows "normalized (JStr ds)"
proof -
  obtain d ds' where ds: "ds = d # ds'" using assms(1) by (cases ds) auto
  have dd: "is_decimal d" using assms(2) ds by simp
  have dl: "is_decimal (last ds)" using assms by (simp add: list_all_iff)
  have st: "strip ds = ds"
    using assms(1) dd dl ds by (intro strip_id) (auto simp: decimal_not_space)
  have "lower_char d = d" using dd by (rule decimal_lower)
  then have "hd (lower ds) = d" by (simp add: ds lower_def)
  moreover have "d \<noteq> CHR ''f''" "d \<noteq> CHR ''n''" using dd by (auto simp: is_decimal_def)
  ultimately have "lower ds \<notin> set [''false'', ''no'', ''none'', ''n/a'', ''na'']"
    by auto
  then show ?thesis using st assms(1) by (simp add: normalized_def norm_optional_def)
qed

lemma int_of_digits_nonneg:
  assumes "list_all is_decimal ds"
  shows "0 \<le> int_of_digits ds"
proof -
  have "list_all is_decimal ds \<Longrightarrow> 0 \<le> a \<Longrightarrow>
      0 \<le> foldl (\<lambda>a c. 10 * a + (int (of_char c) - 48)) a ds" for a
  proof (induction ds arbitrary: a)
    case Nil
    then show ?case by simp
  next
    case (Cons c cs)
    have "48 \<le> (of_char c :: nat)" using Cons.prems(1) by (simp add: is_decimal_def Let_def)
    then have "0 \<le> 10 * a + (int (of_char c) - 48)" using Cons.prems(2) by simp
    then show ?case using Cons.prems(1) by (simp add: Cons.IH)
  qed
  from this[OF assms, of 0] show ?thesis by (simp add: int_of_digits_def)
qed

lemma normalized_str_int: "0 \<le> n \<Longrightarrow> normalized (JStr (str_int n))"
  using str_nat_decimal[of "nat n"] by (simp add: str_int_def normalized_digits)

subsection \<open>What each layer writes\<close>

lemma changes_copy_loop:
  "set d \<subseteq> D \<Longrightarrow> changes (\<lambda>k v. (k, v) \<in> D) it0 it \<Longrightarrow>
     changes (\<lambda>k v. (k, v) \<in> D) it0 (foldl (\<lambda>it kv. it(fst kv \<mapsto> snd kv)) it d)"
proof (induction d arbitrary: it)
  case Nil
  then show ?case by simp
next
  case (Cons kv d)
  have "(fst kv, snd kv) \<in> D" using Cons.prems(1) by simp
  with Cons.prems(2) have a: "changes (\<lambda>k v. (k, v) \<in> D) it0 (it(fst kv \<mapsto> snd kv))"
    by (rule changes_upd)
  have b: "set d \<subseteq> D" using Cons.prems(1) by simp
  show ?case unfolding foldl_Cons by (rule Cons.IH[OF b a])
qed

lemma changes_copy_items: "set d \<subseteq> D \<Longrightarrow> changes (\<lambda>k v. (k, v) \<in> D) it (copy_items d it)"
  unfolding copy_items_def by (rule changes_copy_loop) (simp_all add: changes_refl)

lemma changes_write_direct:
  "changes (\<lambda>k v. k = ''Features'' \<or> normalized v) it (write_direct it ar)"
proof (cases ar)
  case (Pair aspect raw)
  show ?thesis
  proof (cases "aspect = ''Features''")
    case True
    then show ?thesis
      unfolding Pair write_direct_def
      by (cases raw) (auto intro!: changes_refl changes_upd)
  next
    case False
    then show ?thesis
      unfolding Pair write_direct_def Let_def
      by (auto intro!: changes_refl changes_upd normalized_norm_optional)
  qed
qed

lemma changes_direct_layer:
  assumes "direct_layer crd it = Inr it'"
  shows "changes (\<lambda>k v. k = ''Features'' \<or> normalized v) it it'"
proof -
  from assms obtain dm where "it' = foldl write_direct it dm"
    by (auto simp: direct_layer_def and_then_Inr)
  then show ?thesis by (simp add: changes_foldl changes_write_direct)
qed

lemma changes_derive_rule:
  assumes "derive_rule crd it tr = Inr it'"
  shows "changes (\<lambda>k v. k = fst tr) it it'"
proof (cases tr)
  case (Pair target rule)
  show ?thesis
  proof (cases rule)
    case (JDict rd)
    with assms Pair obtain val where "it' = (if val \<noteq> [] then it(target \<mapsto> JStr val) else it)"
      by (auto simp: derive_rule_def Let_def and_then_Inr)
    then show ?thesis using Pair by (auto intro!: changes_refl changes_upd)
  qed (use assms Pair in \<open>auto simp: derive_rule_def changes_refl\<close>)
qed

lemma changes_derive_layer:
  assumes "derive_layer crd enforced it = Inr it'"
  shows "changes (\<lambda>k v. k \<in> derive_targets enforced) it it'"
proof (cases "dget_default enforced ''derive_and_enforce'' (JDict [])")
  case (JDict dae)
  with assms have f: "fold_err (derive_rule crd) dae it = Inr it'"
    by (simp add: derive_layer_def)
  have "changes (\<lambda>k v. k \<in> fst ` set dae) s t"
    if "x \<in> set dae" "derive_rule crd s x = Inr t" for s x t
    by (rule changes_mono[OF changes_derive_rule[OF that(2)]]) (use that(1) in auto)
  from changes_fold_err[of dae "derive_rule crd", OF this f] show ?thesis
    by (simp add: derive_targets_def JDict)
qed (use assms in \<open>auto simp: derive_layer_def changes_refl\<close>)

lemma changes_sport_rules:
  "sport_rules k sport rules it = Inr it' \<Longrightarrow> changes (\<lambda>k' v. k' = k \<and> normalized v) it it'"
proof (induction rules)
  case Nil
  then show ?case by (simp add: changes_refl)
next
  case (Cons r rs)
  show ?case
  proof (cases r)
    case (JDict rd)
    show ?thesis
    proof (cases "case dget_default rd ''when'' (JDict []) of
        JDict whn \<Rightarrow> dget whn ''Sport'' = JStr sport | _ \<Rightarrow> False")
      case True
      with Cons.prems JDict
      have "it' = (if norm_optional (dget rd ''value'') \<noteq> []
          then it(k \<mapsto> JStr (norm_optional (dget rd ''value''))) else it)"
        by (auto simp: Let_def)
      then show ?thesis
        by (auto intro!: changes_refl changes_upd normalized_norm_optional)
    next
      case False
      with Cons.prems JDict have "sport_rules k sport rs it = Inr it'" by simp
      then show ?thesis by (rule Cons.IH)
    qed
  qed (use Cons.prems in auto)
qed

lemma changes_sport_mapping:
  assumes "sport_mapping ca sport it k = Inr it'"
  shows "changes (\<lambda>k' v. k' = k \<and> normalized v) it it'"
proof (cases "\<exists>cak rules. map_of ca k = Some (JDict cak) \<and> sport \<noteq> []
    \<and> dget_default cak ''rules'' (JList []) = JList rules")
  case True
  then obtain cak rules where "map_of ca k = Some (JDict cak)" "sport \<noteq> []"
    "dget_default cak ''rules'' (JList []) = JList rules"
    by blast
  with assms have "sport_rules k sport rules it = Inr it'"
    by (simp add: sport_mapping_def)
  then show ?thesis by (rule changes_sport_rules)
next
  case False
  with assms have "it' = it"
    by (auto simp: sport_mapping_def split: option.splits json.splits if_splits)
  then show ?thesis by (simp add: changes_refl)
qed

lemma changes_card_thickness:
  assumes "card_thickness ca it = Inr it'"
  shows "changes (\<lambda>k v. k = ''Card Thickness'' \<and> (normalized v \<or> v = JStr [])) it it'"
proof (cases "\<exists>ct. map_of ca ''Card Thickness'' = Some (JDict ct)")
  case True
  then obtain ct where ct: "map_of ca ''Card Thickness'' = Some (JDict ct)" by blast
  define it1 where "it1 =
     (if norm_optional (iget it ''Card Thickness'') = [] then
        (let dflt = norm_optional (dget ct ''default'') in
         if dflt \<noteq> [] then it(''Card Thickness'' \<mapsto> JStr dflt) else it)
      else it)"
  have 1: "changes (\<lambda>k v. k = ''Card Thickness'' \<and> (normalized v \<or> v = JStr [])) it it1"
    unfolding it1_def Let_def
    by (auto intro!: changes_refl changes_upd normalized_norm_optional)
  from assms ct obtain ft where
    "it' = (if contains ''Memorabilia'' ft then it1(''Card Thickness'' \<mapsto> JStr []) else it1)"
    unfolding card_thickness_def it1_def by (auto simp: and_then_Inr Let_def)
  then show ?thesis using 1 by (auto intro!: changes_upd)
next
  case False
  with assms have "it' = it"
    by (auto simp: card_thickness_def split: option.splits json.splits)
  then show ?thesis by (simp add: changes_refl)
qed

lemma changes_conditional_layer:
  assumes "conditional_layer enforced it = Inr it'"
  shows "changes conditional_write it it'"
proof (cases "dget_default enforced ''conditional_aspects'' (JDict [])")
  case (JDict ca)
  define it1 where "it1 = (if map_of ca ''California Prop 65 Warning'' \<noteq> None
      then it(''California Prop 65 Warning'' \<mapsto> JStr []) else it)"
  from assms JDict obtain sport it2 where
    s: "fold_err (sport_mapping ca sport) [''League'', ''Event/Tournament''] it1 = Inr it2"
    and t: "card_thickness ca it2 = Inr it'"
    unfolding conditional_layer_def it1_def by (auto simp: and_then_Inr Let_def)
  have 1: "changes conditional_write it it1"
    unfolding it1_def by (auto intro!: changes_refl changes_upd simp: conditional_write_def)
  have "changes conditional_write a b"
    if "x \<in> set [''League'', ''Event/Tournament'']" "sport_mapping ca sport a x = Inr b" for a x b
    by (rule changes_mono[OF changes_sport_mapping[OF that(2)]])
      (use that(1) in \<open>auto simp: conditional_write_def\<close>)
  from changes_fold_err[of _ "sport_mapping ca sport", OF this s]
  have 2: "changes conditional_write it1 it2" .
  have 3: "changes conditional_write it2 it'"
    by (rule changes_mono[OF changes_card_thickness[OF t]]) (auto simp: conditional_write_def)
  from 1 2 3 show ?thesis by (blast intro: changes_trans)
qed (use assms in \<open>auto simp: conditional_layer_def and_then_Inr changes_refl\<close>)

lemma changes_when_yes_rules:
  assumes "when_yes_rules crd when_yes it = Inr it'"
  shows "changes autograph_write it it'"
proof -
  define it2 where "it2 = (\<lambda>it1 :: item.
      case dget when_yes ''Autograph Authentication'' of
        JDict aa \<Rightarrow>
          (case map_of aa ''value'' of
             Some v \<Rightarrow> it1(''Autograph Authentication'' \<mapsto> v)
           | None \<Rightarrow> it1)
      | _ \<Rightarrow> it1)"
  from assms obtain it1 where
    a: "(case dget when_yes ''Signed By'' of
          JDict sb \<Rightarrow>
            if dget sb ''from'' = JStr ''player_name''
            then and_then (get_player_name crd) (\<lambda>n. Inr (it(''Signed By'' \<mapsto> JStr n)))
            else Inr it
        | _ \<Rightarrow> Inr it) = Inr it1"
    and b: "(case dget when_yes ''Autograph Format'' of
               JDict af \<Rightarrow>
                 (let allowed = dget_default af ''allowed_by_policy'' (JList []);
                      current = norm_optional
                        (iget ((it2 it1)(''Autograph Authentication Number'' \<mapsto> JStr []))
                          ''Autograph Format'')
                  in if current \<noteq> [] \<and> truthy allowed
                     then and_then (not_in current allowed)
                       (\<lambda>b. Inr (if b
                          then (it2 it1)(''Autograph Authentication Number'' \<mapsto> JStr [],
                                 ''Autograph Format'' \<mapsto> JStr [])
                          else (it2 it1)(''Autograph Authentication Number'' \<mapsto> JStr [])))
                     else Inr ((it2 it1)(''Autograph Authentication Number'' \<mapsto> JStr [])))
             | _ \<Rightarrow> Inr ((it2 it1)(''Autograph Authentication Number'' \<mapsto> JStr []))) = Inr it'"
    unfolding when_yes_rules_def it2_def and_then_Inr Let_def by blast
  have 1: "changes autograph_write it it1"
    using a
    by (auto simp: and_then_Inr autograph_write_def split: json.splits if_splits
        intro!: changes_refl changes_upd)
  have 2: "changes autograph_write it1 (it2 it1)"
    unfolding it2_def
    by (auto simp: autograph_write_def split: json.splits option.splits
        intro!: changes_refl changes_upd)
  let ?it3 = "(it2 it1)(''Autograph Authentication Number'' \<mapsto> JStr [])"
  have 3: "changes autograph_write (it2 it1) ?it3"
    by (auto simp: autograph_write_def intro!: changes_refl changes_upd)
  have "it' = ?it3 \<or> it' = ?it3(''Autograph Format'' \<mapsto> JStr [])"
    using b by (auto simp: and_then_Inr Let_def split: json.splits if_splits)
  then have 4: "changes autograph_write ?it3 it'"
    by (auto simp: autograph_write_def intro!: changes_refl changes_upd)
  from 1 2 3 4 show ?thesis by (blast intro: changes_trans)
qed

lemma changes_autograph_layer:
  assumes "autograph_layer crd enforced it = Inr it'"
  shows "changes autograph_write it it'"
proof (cases "\<exists>ar blk when_yes.
    dget_default enforced ''autograph_rules'' (JDict []) = JDict ar
    \<and> dget ar ''Autographed'' = JDict blk
    \<and> lower (norm_optional (iget it ''Autographed'')) = ''yes''
    \<and> dget_default blk ''when_yes'' (JDict []) = JDict when_yes")
  case True
  then obtain ar blk when_yes where
    "dget_default enforced ''autograph_rules'' (JDict []) = JDict ar"
    "dget ar ''Autographed'' = JDict blk"
    "lower (norm_optional (iget it ''Autographed'')) = ''yes''"
    "dget_default blk ''when_yes'' (JDict []) = JDict when_yes"
    by blast
  with assms have "when_yes_rules crd when_yes it = Inr it'"
    by (simp add: autograph_layer_def Let_def)
  then show ?thesis by (rule changes_when_yes_rules)
next
  case False
  with assms have "it' = it"
    by (auto simp: autograph_layer_def Let_def never_no split: json.splits if_splits)
  then show ?thesis by (simp add: changes_refl)
qed

lemma changes_parallel_default:
  "changes (\<lambda>k v. k = ''Parallel/Variety'') it (parallel_default enforced it)"
  by (auto simp: parallel_default_def split: json.splits intro!: changes_refl changes_upd)

lemma changes_features_default:
  "changes (\<lambda>k v. k = ''Features'') it (features_default enforced it)"
  by (auto simp: features_default_def split: json.splits intro!: changes_refl changes_upd)

lemma serial_denominator_normalized:
  assumes "serial_denominator_only_no_slash serial = Inr d" "d \<noteq> []"
  shows "normalized (JStr d)"
proof -
  from assms obtain s n where "py_int s = Inr n" "d = str_int n"
    by (auto simp: serial_denominator_only_no_slash_def Let_def split: if_splits sum.splits)
  moreover from this(1) have "list_all is_decimal s" "n = int_of_digits s"
    by (auto dest: py_int_Inr)
  ultimately show ?thesis by (simp add: normalized_str_int int_of_digits_nonneg)
qed

lemma changes_print_run:
  assumes "print_run crd it = Inr it'"
  shows "changes (\<lambda>k v. k = ''Print Run'' \<and> normalized v) it it'"
proof -
  from assms obtain denom where
    d: "serial_denominator_only_no_slash (dget crd ''serial_number'') = Inr denom"
    and i: "it' = (if denom \<noteq> [] then it(''Print Run'' \<mapsto> JStr denom) else it)"
    by (auto simp: print_run_def and_then_Inr)
  show ?thesis
    unfolding i using serial_denominator_normalized[OF d]
    by (auto intro!: changes_refl changes_upd)
qed

lemma changes_insert_set:
  "changes (\<lambda>k v. k = ''Insert Set'' \<and> normalized v) it (insert_set crd it)"
  by (auto simp: insert_set_def Let_def intro!: changes_refl changes_upd normalized_norm_optional)

lemma build_item_specifics_steps:
  assumes "build_item_specifics crd g e = Inr it"
  obtains it2 it3 it4 it5 it8 where
    "direct_layer crd (defaults_layer g) = Inr it2"
    "derive_layer crd e it2 = Inr it3"
    "derived_item crd g e = Inr it3"
    "conditional_layer e it3 = Inr it4"
    "autograph_layer crd e it4 = Inr it5"
    "print_run crd (features_default e (parallel_default e it5)) = Inr it8"
    "it = insert_set crd it8"
  using assms unfolding build_item_specifics_def derived_item_def and_then_Inr by auto

lemma dom_copy_items: "dom (copy_items d it) = dom it \<union> fst ` set d"
  unfolding copy_items_def by (induction d arbitrary: it) auto

lemma returns_withD: "returns_with r P \<Longrightarrow> \<exists>x. r = Inr x \<and> P x"
  by (cases r) (simp_all add: returns_with_def)

section \<open>Keys and overrides of the item specifics\<close>

text \<open>
  C10. Every key of the global defaults is a key of the mapping that the derivation
  returns: no step removes a key from the mapping.
\<close>

theorem globals_keys_kept:
  assumes "build_item_specifics crd globals_defaults enforced = Inr it"
    and "k \<in> fst ` set globals_defaults"
  shows "k \<in> dom it"
proof -
  from assms(1) obtain it2 it3 it4 it5 it8 where s:
    "direct_layer crd (defaults_layer globals_defaults) = Inr it2"
    "derive_layer crd enforced it2 = Inr it3"
    "conditional_layer enforced it3 = Inr it4"
    "autograph_layer crd enforced it4 = Inr it5"
    "print_run crd (features_default enforced (parallel_default enforced it5)) = Inr it8"
    "it = insert_set crd it8"
    by (rule build_item_specifics_steps)
  have "k \<in> dom (defaults_layer globals_defaults)"
    using assms(2) by (simp add: defaults_layer_def dom_copy_items)
  also have "\<dots> \<subseteq> dom it2" by (rule changes_dom[OF changes_direct_layer[OF s(1)]])
  also have "\<dots> \<subseteq> dom it3" by (rule changes_dom[OF changes_derive_layer[OF s(2)]])
  also have "\<dots> \<subseteq> dom it4" by (rule changes_dom[OF changes_conditional_layer[OF s(3)]])
  also have "\<dots> \<subseteq> dom it5" by (rule changes_dom[OF changes_autograph_layer[OF s(4)]])
  also have "\<dots> \<subseteq> dom (parallel_default enforced it5)"
    by (rule changes_dom[OF changes_parallel_default])
  also have "\<dots> \<subseteq> dom (features_default enforced (parallel_default enforced it5))"
    by (rule changes_dom[OF changes_features_default])
  also have "\<dots> \<subseteq> dom it8" by (rule changes_dom[OF changes_print_run[OF s(5)]])
  also have "\<dots> \<subseteq> dom it" unfolding s(6) by (rule changes_dom[OF changes_insert_set])
  finally show ?thesis .
qed

theorem globals_keys_kept_witness:
  "\<exists>it. build_item_specifics numbered_card [(''Type'', JStr ''Sports Trading Card''), (''Print Run'', JStr ''1'')] []
       = Inr it
     \<and> ''Type'' \<in> dom it \<and> ''Print Run'' \<in> dom it"
proof -
  have "returns_with (build_item_specifics numbered_card
      [(''Type'', JStr ''Sports Trading Card''), (''Print Run'', JStr ''1'')] []) (\<lambda>it. True)"
    by code_simp
  then obtain it where it: "build_item_specifics numbered_card
      [(''Type'', JStr ''Sports Trading Card''), (''Print Run'', JStr ''1'')] [] = Inr it"
    by (auto dest: returns_withD)
  have "''Type'' \<in> dom it" by (rule globals_keys_kept[OF it]) simp
  moreover have "''Print Run'' \<in> dom it" by (rule globals_keys_kept[OF it]) simp
  ultimately show ?thesis using it by blast
qed

lemma print_run_final:
  assumes "build_item_specifics crd g e = Inr it"
    and "serial_denominator_only_no_slash (dget crd ''serial_number'') = Inr d" and "d \<noteq> []"
  shows "it ''Print Run'' = Some (JStr d)"
proof -
  from assms(1) obtain it5 it8 where s:
    "print_run crd (features_default e (parallel_default e it5)) = Inr it8"
    "it = insert_set crd it8"
    by (rule build_item_specifics_steps)
  from s(1) assms(2,3) have "it8 ''Print Run'' = Some (JStr d)"
    by (auto simp: print_run_def and_then_Inr)
  moreover have "it ''Print Run'' = it8 ''Print Run''"
    unfolding s(2) by (rule changes_frame[OF changes_insert_set]) simp
  ultimately show ?thesis by simp
qed

text \<open>
  C6. When the second serial mode gives a non-empty denominator for the card's
  \<open>serial_number\<close>, the returned mapping holds that denominator, without a slash, under
  Print Run, whatever the earlier steps wrote there: step 8 writes it and step 9 writes
  Insert Set only. A card with \<open>serial_number\<close> 12/99 and Print Run 50 ends with Print
  Run 99.
\<close>

theorem print_run_override:
  "(\<forall>crd g e it d.
       build_item_specifics crd g e = Inr it
       \<and> serial_denominator_only_no_slash (dget crd ''serial_number'') = Inr d \<and> d \<noteq> []
       \<longrightarrow> it ''Print Run'' = Some (JStr d))
   \<and> (\<forall>crd g e it.
       dget crd ''serial_number'' = JStr ''12/99'' \<and> dget crd ''Print Run'' = JStr ''50''
       \<and> build_item_specifics crd g e = Inr it
       \<longrightarrow> it ''Print Run'' = Some (JStr ''99''))"
proof -
  have e: "serial_denominator_only_no_slash (JStr ''12/99'') = Inr ''99''"
    by code_simp
  have "it ''Print Run'' = Some (JStr ''99'')"
    if "dget crd ''serial_number'' = JStr ''12/99''" "build_item_specifics crd g e = Inr it"
    for crd g e it
    using print_run_final[OF that(2), of "''99''"] e that(1) by simp
  then show ?thesis using print_run_final by blast
qed

theorem print_run_override_witness:
  "dget numbered_card ''serial_number'' = JStr ''12/99''
   \<and> dget numbered_card ''Print Run'' = JStr ''50''
   \<and> serial_denominator_only_no_slash (dget numbered_card ''serial_number'') = Inr ''99''
   \<and> (\<exists>it. build_item_specifics numbered_card [(''Print Run'', JStr ''1'')] [] = Inr it
         \<and> it ''Print Run'' = Some (JStr ''99''))"
proof -
  have a: "dget numbered_card ''serial_number'' = JStr ''12/99''"
    "dget numbered_card ''Print Run'' = JStr ''50''"
    "serial_denominator_only_no_slash (dget numbered_card ''serial_number'') = Inr ''99''"
    by code_simp+
  have "returns_with (build_item_specifics numbered_card [(''Print Run'', JStr ''1'')] [])
      (\<lambda>it. True)"
    by code_simp
  then obtain it where it: "build_item_specifics numbered_card [(''Print Run'', JStr ''1'')] []
      = Inr it"
    by (auto dest: returns_withD)
  with a(1,2) print_run_override have "it ''Print Run'' = Some (JStr ''99'')"
    by blast
  with a it show ?thesis by blast
qed

text \<open>
  C1. The claim has a card whose Autographed field is No receive every pair of the
  \<open>when_no\<close> map. The code compares the lowercased output of the normalizer with
  \<open>no\<close>, and the normalizer returns the empty string for every string that lowercases
  to \<open>no\<close>: the comparison never holds, and the \<open>when_no\<close> map is never copied. On
  the card with Autographed No and Signed By Jane Doe, under rules whose \<open>when_no\<close>
  blanks Signed By, the returned mapping still holds Jane Doe.
\<close>

theorem autographed_no_never_applied:
  "dget unsigned_card ''Autographed'' = JStr ''No''
   \<and> returns_with (build_item_specifics unsigned_card [] blanking_rules)
        (\<lambda>it. it ''Signed By'' = Some (JStr ''Jane Doe''))
   \<and> (\<forall>v. lower (norm_optional v) \<noteq> ''no'')"
proof -
  have "dget unsigned_card ''Autographed'' = JStr ''No''"
    by code_simp
  moreover have "returns_with (build_item_specifics unsigned_card [] blanking_rules)
        (\<lambda>it. it ''Signed By'' = Some (JStr ''Jane Doe''))"
    by code_simp
  ultimately show ?thesis using never_no by blast
qed

section \<open>The memorabilia override\<close>

lemma conditional_layer_memorabilia:
  assumes r: "conditional_layer e it3 = Inr it4"
    and ca: "dget_default e ''conditional_aspects'' (JDict []) = JDict ca"
    and ct: "map_of ca ''Card Thickness'' = Some (JDict ct)"
    and ft: "features_text (iget_default it3 ''Features'' (JList [])) = Inr ft"
    and m: "contains ''Memorabilia'' ft"
  shows "it4 ''Card Thickness'' = Some (JStr [])"
proof -
  define it1 where "it1 = (if map_of ca ''California Prop 65 Warning'' \<noteq> None
      then it3(''California Prop 65 Warning'' \<mapsto> JStr []) else it3)"
  from r ca obtain sport it2 where
    s: "fold_err (sport_mapping ca sport) [''League'', ''Event/Tournament''] it1 = Inr it2"
    and t: "card_thickness ca it2 = Inr it4"
    unfolding conditional_layer_def it1_def by (auto simp: and_then_Inr Let_def)
  have 1: "it1 ''Features'' = it3 ''Features''"
    by (simp add: it1_def)
  have "changes (\<lambda>k v. k = ''League'' \<or> k = ''Event/Tournament'') a b"
    if "x \<in> set [''League'', ''Event/Tournament'']" "sport_mapping ca sport a x = Inr b" for a x b
    by (rule changes_mono[OF changes_sport_mapping[OF that(2)]]) (use that(1) in auto)
  from changes_fold_err[of _ "sport_mapping ca sport", OF this s]
  have c12: "changes (\<lambda>k v. k = ''League'' \<or> k = ''Event/Tournament'') it1 it2" .
  have "it2 ''Features'' = it1 ''Features''"
    by (rule changes_frame[OF c12]) simp
  with 1 have f: "it2 ''Features'' = it3 ''Features''" by simp
  define it2' where "it2' =
     (if norm_optional (iget it2 ''Card Thickness'') = [] then
        (let dflt = norm_optional (dget ct ''default'') in
         if dflt \<noteq> [] then it2(''Card Thickness'' \<mapsto> JStr dflt) else it2)
      else it2)"
  have "it2' ''Features'' = it2 ''Features''"
    by (simp add: it2'_def Let_def)
  with f have "iget_default it2' ''Features'' (JList []) = iget_default it3 ''Features'' (JList [])"
    by (simp add: iget_default_def)
  with ft have "features_text (iget_default it2' ''Features'' (JList [])) = Inr ft"
    by simp
  with t ct m have "it4 = it2'(''Card Thickness'' \<mapsto> JStr [])"
    unfolding card_thickness_def it2'_def by (simp add: and_then_def Let_def)
  then show ?thesis by simp
qed

text \<open>
  Without a Card Thickness entry under \<open>conditional_aspects\<close> the override does not
  run: a memorabilia card keeps the thickness it came with.
\<close>

theorem memorabilia_without_rule:
  "returns_with (build_item_specifics memorabilia_card [] [])
     (\<lambda>it. it ''Features'' = Some (JList [JStr ''Memorabilia''])
        \<and> it ''Card Thickness'' = Some (JStr ''55pt''))"
  by code_simp

text \<open>
  C9, as the code has it. When \<open>conditional_aspects\<close> is a dict that holds a dict under
  Card Thickness, and the Features value of the mapping as the conditional layer receives
  it (after the defaults, the direct fields and the derive-and-enforce rules; a list joined
  by spaces, or the text of anything else) contains \<open>Memorabilia\<close>, the returned mapping
  holds the empty string under Card Thickness: the override comes after the configured
  default and wins over it, and no later step writes Card Thickness.
\<close>

theorem memorabilia_blanks_thickness:
  assumes "build_item_specifics crd g e = Inr it"
    and "dget_default e ''conditional_aspects'' (JDict []) = JDict ca"
    and "map_of ca ''Card Thickness'' = Some (JDict ct)"
    and "derived_item crd g e = Inr it3"
    and "features_text (iget_default it3 ''Features'' (JList [])) = Inr ft"
    and "contains ''Memorabilia'' ft"
  shows "it ''Card Thickness'' = Some (JStr [])"
proof -
  from assms(1) obtain it3' it4 it5 it8 where s:
    "derived_item crd g e = Inr it3'"
    "conditional_layer e it3' = Inr it4"
    "autograph_layer crd e it4 = Inr it5"
    "print_run crd (features_default e (parallel_default e it5)) = Inr it8"
    "it = insert_set crd it8"
    by (rule build_item_specifics_steps)
  have "it3' = it3" using s(1) assms(4) by simp
  with s(2) have "conditional_layer e it3 = Inr it4" by simp
  from conditional_layer_memorabilia[OF this assms(2,3,5,6)]
  have 4: "it4 ''Card Thickness'' = Some (JStr [])" .
  have 5: "it5 ''Card Thickness'' = it4 ''Card Thickness''"
    by (rule changes_frame[OF changes_autograph_layer[OF s(3)]]) (simp add: autograph_write_def)
  have 6: "parallel_default e it5 ''Card Thickness'' = it5 ''Card Thickness''"
    by (rule changes_frame[OF changes_parallel_default]) simp
  have 7: "features_default e (parallel_default e it5) ''Card Thickness''
      = parallel_default e it5 ''Card Thickness''"
    by (rule changes_frame[OF changes_features_default]) simp
  have 8: "it8 ''Card Thickness'' = features_default e (parallel_default e it5) ''Card Thickness''"
    by (rule changes_frame[OF changes_print_run[OF s(4)]]) simp
  have 9: "it ''Card Thickness'' = it8 ''Card Thickness''"
    unfolding s(5) by (rule changes_frame[OF changes_insert_set]) simp
  from 4 5 6 7 8 9 show ?thesis by simp
qed

theorem memorabilia_blanks_thickness_witness:
  "dget_default thickness_rules ''conditional_aspects'' (JDict [])
      = JDict [(''Card Thickness'', JDict [(''default'', JStr ''35pt'')])]
   \<and> (\<exists>it3. derived_item memorabilia_card [] thickness_rules = Inr it3
         \<and> features_text (iget_default it3 ''Features'' (JList [])) = Inr ''Memorabilia'')
   \<and> (\<exists>it. build_item_specifics memorabilia_card [] thickness_rules = Inr it
         \<and> it ''Card Thickness'' = Some (JStr []))"
proof -
  have a: "dget_default thickness_rules ''conditional_aspects'' (JDict [])
      = JDict [(''Card Thickness'', JDict [(''default'', JStr ''35pt'')])]"
    by code_simp
  have b: "map_of [(''Card Thickness'', JDict [(''default'', JStr ''35pt'')])] ''Card Thickness''
      = Some (JDict [(''default'', JStr ''35pt'')])"
    by simp
  have "returns_with (derived_item memorabilia_card [] thickness_rules)
      (\<lambda>it3. features_text (iget_default it3 ''Features'' (JList [])) = Inr ''Memorabilia'')"
    by code_simp
  then obtain it3 where it3: "derived_item memorabilia_card [] thickness_rules = Inr it3"
    "features_text (iget_default it3 ''Features'' (JList [])) = Inr ''Memorabilia''"
    by (auto dest: returns_withD)
  have c: "contains ''Memorabilia'' ''Memorabilia''"
    by code_simp
  have "returns_with (build_item_specifics memorabilia_card [] thickness_rules) (\<lambda>it. True)"
    by code_simp
  then obtain it where it: "build_item_specifics memorabilia_card [] thickness_rules = Inr it"
    by (auto dest: returns_withD)
  from memorabilia_blanks_thickness[OF it a b it3 c]
  have "it ''Card Thickness'' = Some (JStr [])" .
  with a it3 it show ?thesis by blast
qed

section \<open>Where unnormalized values come from\<close>

lemma join_tokens_single: "join_tokens [t] = clean t"
  by (simp add: join_tokens_eq)

lemma collapse_ws_no_space: "\<forall>c\<in>set s. \<not> is_space c \<Longrightarrow> collapse_ws s = s"
  by (induction s rule: collapse_ws.induct) simp_all

lemma no_space_collapse_ws: "\<forall>c\<in>set (collapse_ws s). \<not> is_space c \<Longrightarrow> \<forall>c\<in>set s. \<not> is_space c"
proof (induction s rule: collapse_ws.induct)
  case 1
  then show ?case by simp
next
  case (2 c cs)
  have sp: "is_space (CHR '' '')" by (simp add: is_space_def)
  from 2(3) sp have n: "\<not> is_space c" by (cases "is_space c") auto
  with 2(2)[OF n] 2(3) show ?case by simp
qed

lemma clean_no_space: "\<forall>c\<in>set s. \<not> is_space c \<Longrightarrow> clean s = s"
proof (cases "s = []")
  case True
  then show ?thesis by (simp add: clean_def strip_def lstrip_def rstrip_def)
next
  case False
  assume n: "\<forall>c\<in>set s. \<not> is_space c"
  then have "strip s = s" using False by (intro strip_id) simp_all
  then show ?thesis using n by (simp add: clean_def collapse_ws_no_space)
qed

lemma space_lower_char: "is_space c \<Longrightarrow> lower_char c = c"
  by (auto simp: is_space_def lower_char_def Let_def)

lemma strip_clean: "strip (clean s) = clean s"
proof (cases "clean s = []")
  case True
  then show ?thesis by (simp add: strip_def lstrip_def rstrip_def)
next
  case False
  then show ?thesis using tidy_clean[of s] by (intro strip_id) (auto simp: tidy_def)
qed

lemma false_words_no_space:
  "w \<in> set [''false'', ''no'', ''none'', ''n/a'', ''na''] \<Longrightarrow> \<forall>c\<in>set w. \<not> is_space c"
  by (auto simp: is_space_def)

lemma clean_normalized_not_false_like:
  "\<not> false_like (JStr (clean (norm_optional x)))"
proof
  let ?n = "norm_optional x"
  assume "false_like (JStr (clean ?n))"
  then have w: "lower (clean ?n) \<in> set [''false'', ''no'', ''none'', ''n/a'', ''na'']"
    by (simp add: false_like_def strip_clean)
  then have ne: "clean ?n \<noteq> []" by (auto simp: lower_def)
  then have n0: "?n \<noteq> []" by (auto simp: clean_def strip_def lstrip_def rstrip_def)
  then have nz: "normalized (JStr ?n)" by (rule normalized_norm_optional)
  then have st: "strip ?n = ?n" and lw: "lower ?n \<notin> set [''false'', ''no'', ''none'', ''n/a'', ''na'']"
    using n0 by (auto simp: normalized_def norm_optional_def Let_def split: if_splits)
  have "\<forall>c\<in>set (lower (clean ?n)). \<not> is_space c"
    using w by (rule false_words_no_space)
  then have "\<forall>c\<in>set (clean ?n). \<not> is_space c"
    unfolding lower_def using space_lower_char by force
  then have "\<forall>c\<in>set (collapse_ws ?n). \<not> is_space c"
    by (simp add: clean_def st)
  then have "\<forall>c\<in>set ?n. \<not> is_space c" by (rule no_space_collapse_ws)
  then have "clean ?n = ?n" by (rule clean_no_space)
  with w lw show False by simp
qed

lemma str_int_positive: "0 < n \<Longrightarrow> str_int n \<noteq> [] \<and> list_all is_decimal (str_int n)"
  using str_nat_decimal[of "nat n"] by (simp add: str_int_def)

lemma clean_serial_not_false_like:
  assumes "parse_serial_for_ebay v = Inr (Some r)"
  shows "\<not> false_like (JStr (clean r))"
proof -
  from parse_positive[OF assms] obtain n d where nd: "0 < d"
    "r = ''/'' @ str_int d \<or> (r = str_int n @ ''/'' @ str_int d \<and> (n = 1 \<or> n = d))"
    by blast
  have d: "str_int d \<noteq> []" "list_all is_decimal (str_int d)"
    using str_int_positive[OF nd(1)] by simp_all
  have r: "r \<noteq> [] \<and> (\<forall>c\<in>set r. is_decimal c \<or> c = CHR ''/'') \<and> (is_decimal (hd r) \<or> hd r = CHR ''/'')"
  proof (cases "r = ''/'' @ str_int d")
    case True
    then show ?thesis using d by (auto simp: list_all_iff)
  next
    case False
    with nd(2) have rr: "r = str_int n @ ''/'' @ str_int d" and "0 < n" using nd(1) by auto
    then have n: "str_int n \<noteq> []" "list_all is_decimal (str_int n)"
      using str_int_positive[of n] by simp_all
    then have "is_decimal (hd (str_int n))" by (cases "str_int n") auto
    then show ?thesis using n d rr by (auto simp: list_all_iff)
  qed
  then have ns: "\<forall>c\<in>set r. \<not> is_space c"
    using decimal_not_space slash_facts(1) by blast
  then have c: "clean r = r" by (rule clean_no_space)
  have "lower_char c = c" if "c \<in> set r" for c
    using r that decimal_lower slash_facts(3) by blast
  then have l: "lower r = r" by (simp add: lower_def map_idI)
  have s: "strip r = r" using c strip_clean[of r] by simp
  obtain h t where ht: "r = h # t" using r by (cases r) auto
  then have "is_decimal h \<or> h = CHR ''/''" using r by simp
  then have "h \<noteq> CHR ''f'' \<and> h \<noteq> CHR ''n''" by (auto simp: is_decimal_def)
  then have "r \<notin> set [''false'', ''no'', ''none'', ''n/a'', ''na'']" using ht by auto
  then show ?thesis by (simp add: false_like_def c s l)
qed

lemma group_value_not_false_like:
  assumes "map_of (title_groups (title_inputs crd)) k = Some v"
  shows "\<not> false_like (JStr v)"
proof -
  have e: "\<not> false_like (JStr (clean []))"
    by (simp add: false_like_def strip_clean) (simp add: clean_def strip_def lstrip_def rstrip_def lower_def)
  have s: "\<not> false_like (JStr (clean (serial_fmt_of (title_inputs crd))))"
    using e clean_serial_not_false_like
    by (auto simp: serial_fmt_of_def split: sum.splits option.splits)
  from assms have "(k, v) \<in> set (title_groups (title_inputs crd))" by (rule map_of_SomeD)
  then show ?thesis
    using s
    by (auto simp: title_groups_def group_values_def title_inputs_def join_tokens_single
        clean_normalized_not_false_like)
qed

lemma unnormalized_write_normalized: "normalized v \<Longrightarrow> unnormalized_write g e k v"
  by (simp add: unnormalized_write_def normalized_not_false_like)

lemma unnormalized_write_plain: "\<not> false_like v \<Longrightarrow> unnormalized_write g e k v"
  by (simp add: unnormalized_write_def)

lemma unnormalized_write_conditional:
  assumes "conditional_write k v"
  shows "unnormalized_write g e k v"
proof -
  from assms have "normalized v \<or> v = JStr []"
    unfolding conditional_write_def by (rule conjunct2)
  then have "\<not> false_like v"
    using normalized_not_false_like empty_not_false_like by (elim disjE) simp_all
  then show ?thesis by (rule unnormalized_write_plain)
qed

lemma unnormalized_write_autograph:
  assumes "autograph_write k v"
  shows "unnormalized_write g e k v"
proof (cases "v = JStr []")
  case True
  then have "\<not> false_like v" by (simp add: empty_not_false_like)
  then show ?thesis by (rule unnormalized_write_plain)
next
  case False
  with assms have "k = ''Signed By'' \<or> k = ''Autograph Authentication''"
    unfolding autograph_write_def by simp
  then show ?thesis
    unfolding unnormalized_write_def by (elim disjE) simp_all
qed

lemma item_specifics_changes:
  assumes "build_item_specifics crd g e = Inr it"
  shows "changes (unnormalized_write g e) Map.empty it"
proof -
  let ?Q = "unnormalized_write g e"
  from assms obtain it2 it3 it4 it5 it8 where s:
    "direct_layer crd (defaults_layer g) = Inr it2"
    "derive_layer crd e it2 = Inr it3"
    "conditional_layer e it3 = Inr it4"
    "autograph_layer crd e it4 = Inr it5"
    "print_run crd (features_default e (parallel_default e it5)) = Inr it8"
    "it = insert_set crd it8"
    by (rule build_item_specifics_steps)
  have q: "?Q k v" if "k = ''Features'' \<or> normalized v" for k v
    using that
  proof (elim disjE)
    assume "k = ''Features''"
    then show ?thesis by (simp add: unnormalized_write_def)
  next
    assume "normalized v"
    then show ?thesis by (rule unnormalized_write_normalized)
  qed
  have 1: "changes ?Q Map.empty (defaults_layer g)"
    unfolding defaults_layer_def
    by (rule changes_mono[OF changes_copy_items[OF subset_refl]])
      (simp add: unnormalized_write_def)
  have 2: "changes ?Q (defaults_layer g) it2"
    by (rule changes_mono[OF changes_direct_layer[OF s(1)]]) (rule q)
  have 3: "changes ?Q it2 it3"
    by (rule changes_mono[OF changes_derive_layer[OF s(2)]])
      (simp add: unnormalized_write_def)
  have 4: "changes ?Q it3 it4"
    by (rule changes_mono[OF changes_conditional_layer[OF s(3)]])
      (rule unnormalized_write_conditional)
  have 5: "changes ?Q it4 it5"
    by (rule changes_mono[OF changes_autograph_layer[OF s(4)]])
      (rule unnormalized_write_autograph)
  have 6: "changes ?Q it5 (parallel_default e it5)"
    by (rule changes_mono[OF changes_parallel_default]) (simp add: unnormalized_write_def)
  have 7: "changes ?Q (parallel_default e it5) (features_default e (parallel_default e it5))"
    by (rule changes_mono[OF changes_features_default]) (simp add: unnormalized_write_def)
  have 8: "changes ?Q (features_default e (parallel_default e it5)) it8"
    by (rule changes_mono[OF changes_print_run[OF s(5)]])
      (simp add: unnormalized_write_normalized)
  have 9: "changes ?Q it8 it"
    unfolding s(6)
    by (rule changes_mono[OF changes_insert_set]) (simp add: unnormalized_write_normalized)
  note tr = changes_trans[where Q = "unnormalized_write g e"]
  show ?thesis
    by (rule tr[OF 1 tr[OF 2 tr[OF 3 tr[OF 4 tr[OF 5 tr[OF 6 tr[OF 7 tr[OF 8 9]]]]]]]])
qed

text \<open>
  The global defaults are copied as they are, and the mandatory tokens of the title are
  printed, not normalized: a boolean and a \<open>No\<close> among the defaults reach the mapping,
  and a boolean year and the brand \<open>n/a\<close> reach the title.
\<close>

theorem verbatim_values_leak:
  "returns_with
     (build_item_specifics [] [(''Type'', JBool False), (''Vintage'', JStr ''No'')] [])
     (\<lambda>it. it ''Type'' = Some (JBool False) \<and> it ''Vintage'' = Some (JStr ''No''))
   \<and> build_ebay_title [(''year'', JBool False), (''brand'', JStr ''n/a'')]
       = Inr (''False n/a'', [])"
  by code_simp

text \<open>
  C8, as the code has it. In the returned mapping a boolean, or a string whose trimmed,
  lowercased form is one of false, no, none, n/a, na, is either a value copied as it is
  from the global defaults, or the value of a derive-and-enforce target, or the value of one
  of Features, Parallel/Variety, Signed By and Autograph Authentication; every other value
  that a step writes has passed the normalizer, is a run of digits or is the empty string.
  In the title, no optional group is such a string.
\<close>

theorem false_like_only_unnormalized:
  "(\<forall>crd g e it k v.
       build_item_specifics crd g e = Inr it \<and> it k = Some v \<and> false_like v \<longrightarrow>
         (k, v) \<in> set g \<or> k \<in> derive_targets e
         \<or> k = ''Features'' \<or> k = ''Parallel/Variety'' \<or> k = ''Signed By''
         \<or> k = ''Autograph Authentication'')
   \<and> (\<forall>crd k v.
       map_of (title_groups (title_inputs crd)) k = Some v \<longrightarrow> \<not> false_like (JStr v))"
proof (intro conjI allI impI)
  fix crd g e it k v
  assume a: "build_item_specifics crd g e = Inr it \<and> it k = Some v \<and> false_like v"
  then have "build_item_specifics crd g e = Inr it" by (rule conjunct1)
  then have "changes (unnormalized_write g e) Map.empty it"
    by (rule item_specifics_changes)
  then have "it k = Map.empty k \<or> (\<exists>w. it k = Some w \<and> unnormalized_write g e k w)"
    unfolding changes_def by (rule spec)
  with a have "unnormalized_write g e k v" by auto
  with a show "(k, v) \<in> set g \<or> k \<in> derive_targets e
         \<or> k = ''Features'' \<or> k = ''Parallel/Variety'' \<or> k = ''Signed By''
         \<or> k = ''Autograph Authentication''"
    unfolding unnormalized_write_def by simp
next
  fix crd k v
  assume "map_of (title_groups (title_inputs crd)) k = Some v"
  then show "\<not> false_like (JStr v)" by (rule group_value_not_false_like)
qed

theorem false_like_only_unnormalized_witness:
  "(\<exists>it. build_item_specifics [(''Team'', JStr '' N/A '')] [(''Team'', JStr ''none'')] [] = Inr it
      \<and> it ''Team'' = Some (JStr ''none'') \<and> false_like (JStr ''none'')
      \<and> (''Team'', JStr ''none'') \<in> set [(''Team'', JStr ''none'')])
   \<and> map_of (title_groups (title_inputs [(''rookie'', JStr '' RC '')])) ''rookie'' = Some ''RC''
   \<and> \<not> false_like (JStr ''RC'')"
proof -
  note t = false_like_only_unnormalized
  have "returns_with
      (build_item_specifics [(''Team'', JStr '' N/A '')] [(''Team'', JStr ''none'')] [])
      (\<lambda>it. it ''Team'' = Some (JStr ''none''))"
    by code_simp
  then obtain it where it:
    "build_item_specifics [(''Team'', JStr '' N/A '')] [(''Team'', JStr ''none'')] [] = Inr it"
    "it ''Team'' = Some (JStr ''none'')"
    by (auto dest: returns_withD)
  have f: "false_like (JStr ''none'')"
    by code_simp
  have n: "''Team'' \<notin> derive_targets []"
    by (simp add: derive_targets_def dget_default_def)
  have m: "''Team'' \<noteq> ''Features''" "''Team'' \<noteq> ''Parallel/Variety''"
    "''Team'' \<noteq> ''Signed By''" "''Team'' \<noteq> ''Autograph Authentication''"
    by simp_all
  from t have "build_item_specifics [(''Team'', JStr '' N/A '')] [(''Team'', JStr ''none'')] [] = Inr it
      \<and> it ''Team'' = Some (JStr ''none'') \<and> false_like (JStr ''none'') \<longrightarrow>
      (''Team'', JStr ''none'') \<in> set [(''Team'', JStr ''none'')]
      \<or> ''Team'' \<in> derive_targets []
      \<or> ''Team'' = ''Features'' \<or> ''Team'' = ''Parallel/Variety'' \<or> ''Team'' = ''Signed By''
      \<or> ''Team'' = ''Autograph Authentication''"
    by (elim conjE allE)
  with it f n m have 1: "(''Team'', JStr ''none'') \<in> set [(''Team'', JStr ''none'')]"
    by simp
  have g: "map_of (title_groups (title_inputs [(''rookie'', JStr '' RC '')])) ''rookie'' = Some ''RC''"
    by code_simp
  from t have "map_of (title_groups (title_inputs [(''rookie'', JStr '' RC '')])) ''rookie'' = Some ''RC''
      \<longrightarrow> \<not> false_like (JStr ''RC'')"
    by (elim conjE allE)
  with g have 2: "\<not> false_like (JStr ''RC'')"
    by simp
  from it f 1 g 2 show ?thesis
    by (intro conjI exI[of _ it])
qed

end
